theory Spec2Isabelle
  imports Complex_Main
begin

section \<open>Arrays, errors and the numeric runtime\<close>

text \<open>
  The sampler of \<^verbatim>\<open>score_models/sampler.py\<close> is a pure function built from calls into
  \<^verbatim>\<open>jax\<close>. An array is its shape together with its elements in row-major order; it is
  well formed when the number of elements is the product of the shape.
\<close>

record 'a ndarray =
  shape :: "nat list"
  data :: "'a list"

definition wf_ndarray :: "'a ndarray \<Rightarrow> bool" where
  "wf_ndarray x = (length (data x) = prod_list (shape x))"

text \<open>
  The exceptions a call can end in: the \<^verbatim>\<open>ValueError\<close> of line 61, an exception raised
  inside a \<^verbatim>\<open>jax\<close> call because of the shapes of its operands, and an exception raised
  by the caller's score function.
\<close>

datatype error = ValueError_both_None | JaxShapeError | ScoreFunctionError

text \<open>
  The element arithmetic and the pseudorandom generator are parameters: nothing is
  assumed about rounding, and a theorem holds for every choice of them.
  \<open>normal_at J key s i\<close> is the element at flat position \<open>i\<close> of
  \<^verbatim>\<open>random.normal(key, shape=s)\<close>; \<open>subkey J key n i\<close> is entry \<open>i\<close> of
  \<^verbatim>\<open>random.split(key, n)\<close>.
\<close>

record ('k, 'a) runtime =
  fadd :: "'a \<Rightarrow> 'a \<Rightarrow> 'a"
  fmul :: "'a \<Rightarrow> 'a \<Rightarrow> 'a"
  fsqrt :: "'a \<Rightarrow> 'a"
  ftwo :: "'a"
  normal_at :: "'k \<Rightarrow> nat list \<Rightarrow> nat \<Rightarrow> 'a"
  subkey :: "'k \<Rightarrow> nat \<Rightarrow> nat \<Rightarrow> 'k"

definition random_normal :: "('k, 'a) runtime \<Rightarrow> 'k \<Rightarrow> nat list \<Rightarrow> 'a ndarray" where
  "random_normal J key s = \<lparr>shape = s, data = map (normal_at J key s) [0..<prod_list s]\<rparr>"

definition random_split :: "('k, 'a) runtime \<Rightarrow> 'k \<Rightarrow> nat \<Rightarrow> 'k list" where
  "random_split J key n = map (subkey J key n) [0..<n]"

text \<open>
  A shape written in Python may hold \<^verbatim>\<open>None\<close> (the placeholder of
  \<^verbatim>\<open>sample_shape=(None, 2)\<close>); \<^verbatim>\<open>random.normal\<close> raises on such an entry.
\<close>

definition random_normal_dims ::
  "('k, 'a) runtime \<Rightarrow> 'k \<Rightarrow> nat option list \<Rightarrow> error + 'a ndarray" where
  "random_normal_dims J key dims =
     (case those dims of
        None \<Rightarrow> Inl JaxShapeError
      | Some s \<Rightarrow> Inr (random_normal J key s))"

subsection \<open>Elementwise operations with broadcasting\<close>

text \<open>
  Shapes are aligned at their last axis; two extents are compatible when they are equal
  or one of them is 1. The functions with suffix \<open>_rev\<close> work on reversed shapes.
\<close>

fun broadcast_shapes_rev :: "nat list \<Rightarrow> nat list \<Rightarrow> nat list option" where
  "broadcast_shapes_rev [] ys = Some ys"
| "broadcast_shapes_rev (x # xs) [] = Some (x # xs)"
| "broadcast_shapes_rev (x # xs) (y # ys) =
     (if x = y \<or> x = 1 \<or> y = 1
      then map_option (Cons (if x = 1 then y else x)) (broadcast_shapes_rev xs ys)
      else None)"

definition broadcast_shapes :: "nat list \<Rightarrow> nat list \<Rightarrow> nat list option" where
  "broadcast_shapes s t = map_option rev (broadcast_shapes_rev (rev s) (rev t))"

fun unravel_rev :: "nat \<Rightarrow> nat list \<Rightarrow> nat list" where
  "unravel_rev i [] = []"
| "unravel_rev i (d # ds) = (i mod d) # unravel_rev (i div d) ds"

fun ravel_rev :: "nat list \<Rightarrow> nat list \<Rightarrow> nat" where
  "ravel_rev (j # js) (d # ds) = j + d * ravel_rev js ds"
| "ravel_rev js ds = 0"

text \<open>
  \<open>source_index s r i\<close>: the flat position, in an operand of shape \<open>s\<close>, of the element
  that lands at flat position \<open>i\<close> of the broadcast result of shape \<open>r\<close>. An axis of
  extent 1 is read at index 0; the leading axes the operand lacks are dropped.
\<close>

definition source_index :: "nat list \<Rightarrow> nat list \<Rightarrow> nat \<Rightarrow> nat" where
  "source_index s r i =
     ravel_rev (map2 (\<lambda>d j. if d = 1 then 0 else j) (rev s) (unravel_rev i (rev r))) (rev s)"

definition broadcast2 ::
  "('a \<Rightarrow> 'a \<Rightarrow> 'a) \<Rightarrow> 'a ndarray \<Rightarrow> 'a ndarray \<Rightarrow> error + 'a ndarray" where
  "broadcast2 f x y =
     (case broadcast_shapes (shape x) (shape y) of
        None \<Rightarrow> Inl JaxShapeError
      | Some r \<Rightarrow>
          Inr \<lparr>shape = r,
               data = map (\<lambda>i. f (data x ! source_index (shape x) r i)
                                  (data y ! source_index (shape y) r i))
                          [0..<prod_list r]\<rparr>)"

definition add :: "('k, 'a) runtime \<Rightarrow> 'a ndarray \<Rightarrow> 'a ndarray \<Rightarrow> error + 'a ndarray" where
  "add J x y = broadcast2 (fadd J) x y"

text \<open>A Python scalar times an array, and an array times a Python scalar.\<close>

definition scalar_mul :: "('k, 'a) runtime \<Rightarrow> 'a \<Rightarrow> 'a ndarray \<Rightarrow> 'a ndarray" where
  "scalar_mul J c x = \<lparr>shape = shape x, data = map (fmul J c) (data x)\<rparr>"

definition mul_scalar :: "('k, 'a) runtime \<Rightarrow> 'a ndarray \<Rightarrow> 'a \<Rightarrow> 'a ndarray" where
  "mul_scalar J x c = \<lparr>shape = shape x, data = map (\<lambda>v. fmul J v c) (data x)\<rparr>"

subsection \<open>Stacking, unstacking and \<^verbatim>\<open>np.vstack\<close>\<close>

definition unstack :: "'a ndarray \<Rightarrow> 'a ndarray list" where
  "unstack x =
     (case shape x of
        [] \<Rightarrow> []
      | n # s \<Rightarrow>
          map (\<lambda>i. \<lparr>shape = s, data = take (prod_list s) (drop (i * prod_list s) (data x))\<rparr>)
              [0..<n])"

text \<open>
  Stacking along a new leading axis. For an empty list \<^verbatim>\<open>jax\<close> takes the trailing
  axes from the traced function; the model has no such information and gives shape
  \<open>[0]\<close>, so statements about stacked outputs are made for at least one chain.
\<close>

definition stack :: "'a ndarray list \<Rightarrow> error + 'a ndarray" where
  "stack xs =
     (case xs of
        [] \<Rightarrow> Inr \<lparr>shape = [0], data = []\<rparr>
      | x # r \<Rightarrow>
          if list_all (\<lambda>y. shape y = shape x) r
          then Inr \<lparr>shape = length xs # shape x, data = concat (map data xs)\<rparr>
          else Inl JaxShapeError)"

definition atleast_2d :: "'a ndarray \<Rightarrow> 'a ndarray" where
  "atleast_2d x =
     (case shape x of
        [] \<Rightarrow> \<lparr>shape = [1, 1], data = data x\<rparr>
      | [d] \<Rightarrow> \<lparr>shape = [1, d], data = data x\<rparr>
      | _ \<Rightarrow> x)"

text \<open>
  \<^verbatim>\<open>concatenate(arrs, axis=0)\<close>: no array to concatenate is an error, and so are
  arrays of rank 0 or arrays that differ in an axis other than the first.
\<close>

definition concatenate0 :: "'a ndarray list \<Rightarrow> error + 'a ndarray" where
  "concatenate0 xs =
     (case xs of
        [] \<Rightarrow> Inl JaxShapeError
      | x # r \<Rightarrow>
          if shape x \<noteq> [] \<and> list_all (\<lambda>y. shape y \<noteq> [] \<and> tl (shape y) = tl (shape x)) r
          then Inr \<lparr>shape = sum_list (map (\<lambda>y. hd (shape y)) xs) # tl (shape x),
                    data = concat (map data xs)\<rparr>
          else Inl JaxShapeError)"

text \<open>
  \<^verbatim>\<open>np.vstack(xs)\<close> walks over the leading axis of \<open>xs\<close>, makes every entry at least
  two-dimensional and concatenates along axis 0. The argument here is the list of the
  entries along that leading axis.
\<close>

definition vstack :: "'a ndarray list \<Rightarrow> error + 'a ndarray" where
  "vstack xs = concatenate0 (map atleast_2d xs)"

text \<open>
  The shape \<^verbatim>\<open>np.vstack\<close> gives to \<open>n\<close> arrays that all have shape \<open>s\<close>
  (lemma \<open>vstack_uniform\<close> below): a scalar becomes a row of one entry, a vector a row,
  and arrays of rank two or more are joined along their own first axis.
\<close>

definition vstack_shape :: "nat \<Rightarrow> nat list \<Rightarrow> nat list" where
  "vstack_shape n s = (case s of [] \<Rightarrow> [n, 1] | [d] \<Rightarrow> [n, d] | a # r \<Rightarrow> (n * a) # r)"

section \<open>The sampler\<close>

subsection \<open>\<^verbatim>\<open>lax.scan\<close>\<close>

text \<open>
  \<^verbatim>\<open>lax.scan(f, init, xs)\<close> threads the carry through \<open>f\<close> over the entries of \<open>xs\<close>
  and collects the second components. The carry that \<open>f\<close> returns has to have the shape
  of the carry it was given (\<^verbatim>\<open>jax\<close> checks this once, when it traces \<open>f\<close>; the
  model checks it at every step). The collected outputs are kept as the list of entries
  along the leading axis of the stacked result.
\<close>

fun scan ::
  "('a ndarray \<Rightarrow> 'x \<Rightarrow> error + 'a ndarray \<times> 'y) \<Rightarrow> 'a ndarray \<Rightarrow> 'x list
     \<Rightarrow> error + 'a ndarray \<times> 'y list" where
  "scan f c [] = Inr (c, [])"
| "scan f c (k # ks) =
     (case f c k of
        Inl e \<Rightarrow> Inl e
      | Inr (c', y) \<Rightarrow>
          if shape c' \<noteq> shape c then Inl JaxShapeError
          else (case scan f c' ks of
                  Inl e \<Rightarrow> Inl e
                | Inr (final, ys) \<Rightarrow> Inr (final, y # ys)))"

subsection \<open>One step: \<^verbatim>\<open>inner\<close> (lines 85 to 94)\<close>

text \<open>
  \<open>score\<close> is \<^verbatim>\<open>partial(score_func, params)\<close>; it returns \<open>None\<close> when the score
  function raises. \<open>sample_shape\<close> is the tuple after lines 63 and 64.
\<close>

definition inner ::
  "('k, 'a) runtime \<Rightarrow> 'a \<Rightarrow> ('a ndarray \<Rightarrow> 'a ndarray option) \<Rightarrow> nat option list
     \<Rightarrow> 'a ndarray \<Rightarrow> 'k \<Rightarrow> error + 'a ndarray \<times> 'a ndarray" where
  "inner J epsilon score sample_shape prev_x key =
     (case random_normal_dims J key (tl sample_shape) of
        Inl e \<Rightarrow> Inl e
      | Inr draw \<Rightarrow>
          (case score prev_x of
             None \<Rightarrow> Inl ScoreFunctionError
           | Some s \<Rightarrow>
               (case add J prev_x (scalar_mul J epsilon s) of
                  Inl e \<Rightarrow> Inl e
                | Inr t \<Rightarrow>
                    (case add J t (scalar_mul J (fsqrt J (fmul J (ftwo J) epsilon)) draw) of
                       Inl e \<Rightarrow> Inl e
                     | Inr new_x \<Rightarrow> Inr (new_x, prev_x)))))"

subsection \<open>One chain: \<^verbatim>\<open>langevin_dynamics_one_chain\<close> (lines 72 to 98)\<close>

definition langevin_dynamics_one_chain ::
  "('k, 'a) runtime \<Rightarrow> nat \<Rightarrow> 'a \<Rightarrow> ('a ndarray \<Rightarrow> 'a ndarray option) \<Rightarrow> nat option list
     \<Rightarrow> 'a ndarray \<Rightarrow> 'k \<Rightarrow> error + 'a ndarray \<times> 'a ndarray" where
  "langevin_dynamics_one_chain J n_samples epsilon score sample_shape x key =
     (case scan (inner J epsilon score sample_shape) x (random_split J key n_samples) of
        Inl e \<Rightarrow> Inl e
      | Inr (final_xs, xs) \<Rightarrow>
          (case vstack xs of
             Inl e \<Rightarrow> Inl e
           | Inr v \<Rightarrow> Inr (final_xs, v)))"

subsection \<open>\<^verbatim>\<open>vmap\<close> over the chains\<close>

fun collect :: "(error + 'b) list \<Rightarrow> error + 'b list" where
  "collect [] = Inr []"
| "collect (r # rs) =
     (case r of
        Inl e \<Rightarrow> Inl e
      | Inr v \<Rightarrow> (case collect rs of Inl e \<Rightarrow> Inl e | Inr vs \<Rightarrow> Inr (v # vs)))"

text \<open>
  \<^verbatim>\<open>vmap(f)(xs, keys)\<close> maps \<open>f\<close> over the leading axes of both arguments, which
  must have the same extent (and \<open>xs\<close> must have a leading axis at all), and stacks the
  two components of the results. \<^verbatim>\<open>jax\<close> compares the extents before it runs
  \<open>f\<close>. It traces \<open>f\<close> once, so all chains raise or none does; the model runs the
  chains in order and returns the first error. The interface asks for a positive number
  of chains; for an empty batch \<^verbatim>\<open>jax\<close> still traces \<open>f\<close>, while the model runs
  no chain.
\<close>

definition vmap ::
  "('a ndarray \<Rightarrow> 'k \<Rightarrow> error + 'a ndarray \<times> 'a ndarray) \<Rightarrow> 'a ndarray \<Rightarrow> 'k list
     \<Rightarrow> error + 'a ndarray \<times> 'a ndarray" where
  "vmap f xs keys =
     (case shape xs of
        [] \<Rightarrow> Inl JaxShapeError
      | n # s \<Rightarrow>
          if n \<noteq> length keys then Inl JaxShapeError
          else (case collect (map2 f (unstack xs) keys) of
                  Inl e \<Rightarrow> Inl e
                | Inr rs \<Rightarrow>
                    (case stack (map fst rs) of
                       Inl e \<Rightarrow> Inl e
                     | Inr finals \<Rightarrow>
                         (case stack (map snd rs) of
                            Inl e \<Rightarrow> Inl e
                          | Inr samples \<Rightarrow> Inr (finals, samples)))))"

subsection \<open>The entry point: \<^verbatim>\<open>langevin_dynamics\<close> (lines 10 to 102)\<close>

text \<open>
  Lines 63 and 64: the sample shape, once the check of line 60 has passed. The last
  equation is never reached: with both arguments absent line 61 has raised.
\<close>

fun resolve_sample_shape :: "'a ndarray option \<Rightarrow> nat option list option \<Rightarrow> nat option list" where
  "resolve_sample_shape starter_xs (Some sample_shape) = sample_shape"
| "resolve_sample_shape (Some b) None = None # map Some (tl (shape b))"
| "resolve_sample_shape None None = []"

text \<open>Lines 65 to 68: the starting batch.\<close>

fun resolve_starter_xs ::
  "('k, 'a) runtime \<Rightarrow> nat \<Rightarrow> 'k \<Rightarrow> 'a \<Rightarrow> 'a ndarray option \<Rightarrow> nat option list
     \<Rightarrow> error + 'a ndarray" where
  "resolve_starter_xs J n_chains key init_scale (Some b) sample_shape = Inr b"
| "resolve_starter_xs J n_chains key init_scale None sample_shape =
     (case random_normal_dims J key (Some n_chains # tl sample_shape) of
        Inl e \<Rightarrow> Inl e
      | Inr z \<Rightarrow> Inr (mul_scalar J z init_scale))"

definition langevin_dynamics ::
  "('k, 'a) runtime \<Rightarrow> nat \<Rightarrow> nat \<Rightarrow> 'k \<Rightarrow> 'a \<Rightarrow> ('p \<Rightarrow> 'a ndarray \<Rightarrow> 'a ndarray option) \<Rightarrow> 'p
     \<Rightarrow> 'a \<Rightarrow> 'a ndarray option \<Rightarrow> nat option list option
     \<Rightarrow> error + 'a ndarray \<times> 'a ndarray \<times> 'a ndarray" where
  "langevin_dynamics J n_chains n_samples key epsilon score_func params init_scale
       starter_xs sample_shape =
     (if starter_xs = None \<and> sample_shape = None then Inl ValueError_both_None
      else
        let sample_shape' = resolve_sample_shape starter_xs sample_shape in
        (case resolve_starter_xs J n_chains key init_scale starter_xs sample_shape' of
           Inl e \<Rightarrow> Inl e
         | Inr starter_xs' \<Rightarrow>
             (case vmap (langevin_dynamics_one_chain J n_samples epsilon (score_func params)
                           sample_shape')
                        starter_xs' (random_split J key n_chains) of
                Inl e \<Rightarrow> Inl e
              | Inr (final_samples, samples) \<Rightarrow> Inr (starter_xs', final_samples, samples))))"

section \<open>The chains run one after the other\<close>

text \<open>
  The reference the specification compares the vectorized execution with: a loop over
  the chain index \<open>i = 0, ..., n - 1\<close> that runs chain \<open>i\<close> on row \<open>i\<close> of the
  starting batch with entry \<open>i\<close> of the split of the top-level key, appends its result,
  and stops at the first chain that raises. Everything around the loop is as in
  \<open>langevin_dynamics\<close>.
\<close>

function sequential_loop ::
  "('a ndarray \<Rightarrow> 'k \<Rightarrow> error + 'r) \<Rightarrow> 'a ndarray list \<Rightarrow> 'k list \<Rightarrow> nat \<Rightarrow> nat \<Rightarrow> 'r list
     \<Rightarrow> error + 'r list" where
  "sequential_loop f rows keys n i acc =
     (if i < n
      then (case f (rows ! i) (keys ! i) of
              Inl e \<Rightarrow> Inl e
            | Inr r \<Rightarrow> sequential_loop f rows keys n (Suc i) (acc @ [r]))
      else Inr acc)"
  by pat_completeness auto
termination
  by (relation "measure (\<lambda>(f, rows, keys, n, i, acc). n - i)") auto

definition run_chains_sequentially ::
  "('a ndarray \<Rightarrow> 'k \<Rightarrow> error + 'a ndarray \<times> 'a ndarray) \<Rightarrow> 'a ndarray \<Rightarrow> 'k list
     \<Rightarrow> error + 'a ndarray \<times> 'a ndarray" where
  "run_chains_sequentially f xs keys =
     (case shape xs of
        [] \<Rightarrow> Inl JaxShapeError
      | n # s \<Rightarrow>
          if n \<noteq> length keys then Inl JaxShapeError
          else (case sequential_loop f (unstack xs) keys n 0 [] of
                  Inl e \<Rightarrow> Inl e
                | Inr rs \<Rightarrow>
                    (case stack (map fst rs) of
                       Inl e \<Rightarrow> Inl e
                     | Inr finals \<Rightarrow>
                         (case stack (map snd rs) of
                            Inl e \<Rightarrow> Inl e
                          | Inr samples \<Rightarrow> Inr (finals, samples)))))"

definition langevin_dynamics_sequential ::
  "('k, 'a) runtime \<Rightarrow> nat \<Rightarrow> nat \<Rightarrow> 'k \<Rightarrow> 'a \<Rightarrow> ('p \<Rightarrow> 'a ndarray \<Rightarrow> 'a ndarray option) \<Rightarrow> 'p
     \<Rightarrow> 'a \<Rightarrow> 'a ndarray option \<Rightarrow> nat option list option
     \<Rightarrow> error + 'a ndarray \<times> 'a ndarray \<times> 'a ndarray" where
  "langevin_dynamics_sequential J n_chains n_samples key epsilon score_func params init_scale
       starter_xs sample_shape =
     (if starter_xs = None \<and> sample_shape = None then Inl ValueError_both_None
      else
        let sample_shape' = resolve_sample_shape starter_xs sample_shape in
        (case resolve_starter_xs J n_chains key init_scale starter_xs sample_shape' of
           Inl e \<Rightarrow> Inl e
         | Inr starter_xs' \<Rightarrow>
             (case run_chains_sequentially
                     (langevin_dynamics_one_chain J n_samples epsilon (score_func params)
                        sample_shape')
                     starter_xs' (random_split J key n_chains) of
                Inl e \<Rightarrow> Inl e
              | Inr (final_samples, samples) \<Rightarrow> Inr (starter_xs', final_samples, samples))))"

section \<open>A score function that may be nondeterministic\<close>

text \<open>
  To speak about two invocations on the same inputs, the score function is here a
  relation \<open>S params x r\<close> between its argument and a possible outcome \<open>r\<close>
  (\<open>None\<close> when it raises), so that one call may have several outcomes. Every other
  part of the sampler is as above: a step calls the score function once and then
  computes as \<open>inner\<close> does with that outcome; \<open>scan_nd\<close>, \<open>one_chain_nd\<close>,
  \<open>vmap_nd\<close> and \<open>langevin_dynamics_nd\<close> follow \<open>scan\<close>,
  \<open>langevin_dynamics_one_chain\<close>, \<open>vmap\<close> and \<open>langevin_dynamics\<close> branch by
  branch. The functions of \<^verbatim>\<open>jax.random\<close> are functions of their key.
\<close>

inductive inner_nd ::
  "('k, 'a) runtime \<Rightarrow> 'a \<Rightarrow> ('a ndarray \<Rightarrow> 'a ndarray option \<Rightarrow> bool) \<Rightarrow> nat option list
     \<Rightarrow> 'a ndarray \<Rightarrow> 'k \<Rightarrow> error + 'a ndarray \<times> 'a ndarray \<Rightarrow> bool"
  for J epsilon S sample_shape where
  inner_nd_call:
    "S prev_x r \<Longrightarrow>
     inner_nd J epsilon S sample_shape prev_x key
       (inner J epsilon (\<lambda>x. r) sample_shape prev_x key)"

inductive scan_nd ::
  "('a ndarray \<Rightarrow> 'x \<Rightarrow> error + 'a ndarray \<times> 'y \<Rightarrow> bool) \<Rightarrow> 'a ndarray \<Rightarrow> 'x list
     \<Rightarrow> error + 'a ndarray \<times> 'y list \<Rightarrow> bool"
  for F where
  scan_nd_done: "scan_nd F c [] (Inr (c, []))"
| scan_nd_raise: "F c k (Inl e) \<Longrightarrow> scan_nd F c (k # ks) (Inl e)"
| scan_nd_carry:
    "F c k (Inr (c', y)) \<Longrightarrow> shape c' \<noteq> shape c \<Longrightarrow> scan_nd F c (k # ks) (Inl JaxShapeError)"
| scan_nd_step:
    "F c k (Inr (c', y)) \<Longrightarrow> shape c' = shape c \<Longrightarrow> scan_nd F c' ks r \<Longrightarrow>
     scan_nd F c (k # ks)
       (case r of Inl e \<Rightarrow> Inl e | Inr (final, ys) \<Rightarrow> Inr (final, y # ys))"

inductive one_chain_nd ::
  "('k, 'a) runtime \<Rightarrow> nat \<Rightarrow> 'a \<Rightarrow> ('a ndarray \<Rightarrow> 'a ndarray option \<Rightarrow> bool) \<Rightarrow> nat option list
     \<Rightarrow> 'a ndarray \<Rightarrow> 'k \<Rightarrow> error + 'a ndarray \<times> 'a ndarray \<Rightarrow> bool"
  for J n_samples epsilon S sample_shape where
  one_chain_nd_run:
    "scan_nd (inner_nd J epsilon S sample_shape) x (random_split J key n_samples) r \<Longrightarrow>
     one_chain_nd J n_samples epsilon S sample_shape x key
       (case r of
          Inl e \<Rightarrow> Inl e
        | Inr (final_xs, xs) \<Rightarrow>
            (case vstack xs of
               Inl e \<Rightarrow> Inl e
             | Inr v \<Rightarrow> Inr (final_xs, v)))"

inductive vmap_nd ::
  "('a ndarray \<Rightarrow> 'k \<Rightarrow> error + 'a ndarray \<times> 'a ndarray \<Rightarrow> bool) \<Rightarrow> 'a ndarray \<Rightarrow> 'k list
     \<Rightarrow> error + 'a ndarray \<times> 'a ndarray \<Rightarrow> bool"
  for F where
  vmap_nd_no_axis: "shape xs = [] \<Longrightarrow> vmap_nd F xs keys (Inl JaxShapeError)"
| vmap_nd_sizes:
    "shape xs = n # s \<Longrightarrow> n \<noteq> length keys \<Longrightarrow> vmap_nd F xs keys (Inl JaxShapeError)"
| vmap_nd_run:
    "shape xs = n # s \<Longrightarrow> n = length keys \<Longrightarrow>
     list_all2 (\<lambda>(x, k) r. F x k r) (zip (unstack xs) keys) rs \<Longrightarrow>
     vmap_nd F xs keys
       (case collect rs of
          Inl e \<Rightarrow> Inl e
        | Inr rs' \<Rightarrow>
            (case stack (map fst rs') of
               Inl e \<Rightarrow> Inl e
             | Inr finals \<Rightarrow>
                 (case stack (map snd rs') of
                    Inl e \<Rightarrow> Inl e
                  | Inr samples \<Rightarrow> Inr (finals, samples))))"

inductive langevin_dynamics_nd ::
  "('k, 'a) runtime \<Rightarrow> nat \<Rightarrow> nat \<Rightarrow> 'k \<Rightarrow> 'a \<Rightarrow> ('p \<Rightarrow> 'a ndarray \<Rightarrow> 'a ndarray option \<Rightarrow> bool)
     \<Rightarrow> 'p \<Rightarrow> 'a \<Rightarrow> 'a ndarray option \<Rightarrow> nat option list option
     \<Rightarrow> error + 'a ndarray \<times> 'a ndarray \<times> 'a ndarray \<Rightarrow> bool"
  for J n_chains n_samples key epsilon S params init_scale where
  langevin_dynamics_nd_both_None:
    "langevin_dynamics_nd J n_chains n_samples key epsilon S params init_scale None None
       (Inl ValueError_both_None)"
| langevin_dynamics_nd_init_raises:
    "\<not> (starter_xs = None \<and> sample_shape = None) \<Longrightarrow>
     resolve_starter_xs J n_chains key init_scale starter_xs
       (resolve_sample_shape starter_xs sample_shape) = Inl e \<Longrightarrow>
     langevin_dynamics_nd J n_chains n_samples key epsilon S params init_scale
       starter_xs sample_shape (Inl e)"
| langevin_dynamics_nd_run:
    "\<not> (starter_xs = None \<and> sample_shape = None) \<Longrightarrow>
     resolve_starter_xs J n_chains key init_scale starter_xs
       (resolve_sample_shape starter_xs sample_shape) = Inr starter_xs' \<Longrightarrow>
     vmap_nd
       (one_chain_nd J n_samples epsilon (S params)
          (resolve_sample_shape starter_xs sample_shape))
       starter_xs' (random_split J key n_chains) r \<Longrightarrow>
     langevin_dynamics_nd J n_chains n_samples key epsilon S params init_scale
       starter_xs sample_shape
       (case r of
          Inl e \<Rightarrow> Inl e
        | Inr (final_samples, samples) \<Rightarrow> Inr (starter_xs', final_samples, samples))"

section \<open>A concrete runtime for worked examples\<close>

text \<open>
  Real arithmetic, a generator whose draw at position \<open>i\<close> under key \<open>k\<close> is \<open>k + i\<close>,
  and subkeys \<open>10 * k + i\<close>; the score function that is zero everywhere.
\<close>

definition example_runtime :: "(nat, real) runtime" where
  "example_runtime =
     \<lparr>fadd = (+), fmul = (*), fsqrt = sqrt, ftwo = 2,
      normal_at = (\<lambda>key s i. real (key + i)),
      subkey = (\<lambda>key n i. 10 * key + i)\<rparr>"

definition zero_score :: "unit \<Rightarrow> real ndarray \<Rightarrow> real ndarray option" where
  "zero_score p x = Some \<lparr>shape = shape x, data = replicate (prod_list (shape x)) 0\<rparr>"

section \<open>Facts about the array operations\<close>

subsection \<open>Operands of one shape\<close>

lemma broadcast_shapes_rev_same: "broadcast_shapes_rev ds ds = Some ds"
  by (induction ds) auto

lemma broadcast_shapes_same: "broadcast_shapes s s = Some s"
  by (simp add: broadcast_shapes_def broadcast_shapes_rev_same)

lemma map2_unit_axis_unravel:
  "map2 (\<lambda>d j. if d = 1 then 0 else j) ds (unravel_rev i ds) = unravel_rev i ds"
  by (induction ds arbitrary: i) auto

lemma ravel_unravel_rev: "ravel_rev (unravel_rev i ds) ds = i mod prod_list ds"
  by (induction ds arbitrary: i) (auto simp: mod_mult2_eq)

lemma source_index_same: "source_index s s i = i" if "i < prod_list s"
proof -
  have "source_index s s i = i mod prod_list (rev s)"
    unfolding source_index_def by (simp only: map2_unit_axis_unravel ravel_unravel_rev)
  then show ?thesis
    using that by (simp add: prod_list.rev)
qed

lemma broadcast2_same_shape:
  assumes "shape y = shape x"
  shows "broadcast2 f x y =
           Inr \<lparr>shape = shape x,
                data = map (\<lambda>i. f (data x ! i) (data y ! i)) [0..<prod_list (shape x)]\<rparr>"
  using assms by (simp add: broadcast2_def broadcast_shapes_same source_index_same)

subsection \<open>The states a scan goes through\<close>

lemma scan_states:
  "scan f c ks = Inr (final, ys) \<Longrightarrow>
   \<exists>xs. length xs = Suc (length ks) \<and> xs ! 0 = c \<and> xs ! length ks = final
      \<and> length ys = length ks
      \<and> (\<forall>t < length ks. f (xs ! t) (ks ! t) = Inr (xs ! Suc t, ys ! t))
      \<and> (\<forall>t \<le> length ks. shape (xs ! t) = shape c)"
proof (induction ks arbitrary: c final ys)
  case Nil
  then show ?case by (auto intro: exI[of _ "[c]"])
next
  case (Cons k ks)
  from Cons.prems obtain c' y ys' where
    step: "f c k = Inr (c', y)" and shp: "shape c' = shape c"
    and rest: "scan f c' ks = Inr (final, ys')" and ys: "ys = y # ys'"
    by (auto split: sum.splits prod.splits if_splits)
  from Cons.IH[OF rest] obtain xs where
    xs: "length xs = Suc (length ks)" "xs ! 0 = c'" "xs ! length ks = final"
        "length ys' = length ks"
        "\<forall>t < length ks. f (xs ! t) (ks ! t) = Inr (xs ! Suc t, ys' ! t)"
        "\<forall>t \<le> length ks. shape (xs ! t) = shape c'"
    by blast
  show ?case
  proof (intro exI[of _ "c # xs"] conjI allI impI)
    fix t assume "t < length (k # ks)"
    then show "f ((c # xs) ! t) ((k # ks) ! t) = Inr ((c # xs) ! Suc t, ys ! t)"
      using step xs ys by (cases t) auto
  next
    fix t assume "t \<le> length (k # ks)"
    then show "shape ((c # xs) ! t) = shape c"
      using shp xs by (cases t) auto
  qed (use xs ys in auto)
qed

subsection \<open>The entry point with a starting batch\<close>

lemma langevin_dynamics_Some:
  "langevin_dynamics J n_chains n_samples key epsilon score_func params init_scale (Some b)
       sample_shape =
     (case vmap (langevin_dynamics_one_chain J n_samples epsilon (score_func params)
                   (resolve_sample_shape (Some b) sample_shape))
                b (random_split J key n_chains) of
        Inl e \<Rightarrow> Inl e
      | Inr (final_samples, samples) \<Rightarrow> Inr (b, final_samples, samples))"
  by (simp add: langevin_dynamics_def)

lemma random_normal_dims_cong:
  "those dims = Some d \<Longrightarrow> (\<And>k i. g k d i = normal_at J k d i) \<Longrightarrow>
   random_normal_dims (J\<lparr>normal_at := g\<rparr>) key dims = random_normal_dims J key dims"
  by (simp add: random_normal_dims_def random_normal_def)

lemma inner_cong:
  "those (tl sample_shape) = Some d \<Longrightarrow> (\<And>k i. g k d i = normal_at J k d i) \<Longrightarrow>
   inner (J\<lparr>normal_at := g\<rparr>) epsilon score sample_shape = inner J epsilon score sample_shape"
  by (intro ext)
    (simp add: inner_def random_normal_dims_cong add_def scalar_mul_def
      cong: sum.case_cong option.case_cong)

lemma one_chain_cong:
  "those (tl sample_shape) = Some d \<Longrightarrow> (\<And>k i. g k d i = normal_at J k d i) \<Longrightarrow>
   langevin_dynamics_one_chain (J\<lparr>normal_at := g\<rparr>) n_samples epsilon score sample_shape
     = langevin_dynamics_one_chain J n_samples epsilon score sample_shape"
  by (intro ext) (simp add: langevin_dynamics_one_chain_def inner_cong random_split_def)

lemma vmap_size_mismatch:
  "(\<And>s. shape xs \<noteq> length keys # s) \<Longrightarrow> vmap f xs keys = Inl JaxShapeError"
  by (auto simp: vmap_def split: list.splits)

section \<open>Which errors a call can end in\<close>

lemma random_normal_dims_not_both_None:
  "random_normal_dims J key dims \<noteq> Inl ValueError_both_None"
  by (simp add: random_normal_dims_def split: option.splits)

lemma broadcast2_not_both_None: "broadcast2 f x y \<noteq> Inl ValueError_both_None"
  by (simp add: broadcast2_def split: option.splits)

lemma inner_not_both_None:
  "inner J epsilon score sample_shape prev_x key \<noteq> Inl ValueError_both_None"
  by (auto simp: inner_def add_def random_normal_dims_not_both_None broadcast2_not_both_None
      split: sum.splits option.splits)

lemma scan_not_both_None:
  "(\<And>c k. f c k \<noteq> Inl ValueError_both_None) \<Longrightarrow> scan f c ks \<noteq> Inl ValueError_both_None"
  by (induction ks arbitrary: c) (auto split: sum.splits prod.splits)

lemma vstack_not_both_None: "vstack xs \<noteq> Inl ValueError_both_None"
  by (simp add: vstack_def concatenate0_def split: list.splits)

lemma stack_not_both_None: "stack xs \<noteq> Inl ValueError_both_None"
  by (simp add: stack_def split: list.splits)

lemma one_chain_not_both_None:
  "langevin_dynamics_one_chain J n_samples epsilon score sample_shape x key
     \<noteq> Inl ValueError_both_None"
proof -
  have "scan (inner J epsilon score sample_shape) x (random_split J key n_samples)
          \<noteq> Inl ValueError_both_None"
    by (rule scan_not_both_None) (rule inner_not_both_None)
  then show ?thesis
    by (auto simp: langevin_dynamics_one_chain_def vstack_not_both_None
        split: sum.splits prod.splits)
qed

lemma collect_not_both_None:
  "list_all (\<lambda>r. r \<noteq> Inl ValueError_both_None) rs \<Longrightarrow> collect rs \<noteq> Inl ValueError_both_None"
  by (induction rs) (auto split: sum.splits)

lemma vmap_not_both_None:
  assumes "\<And>x k. f x k \<noteq> Inl ValueError_both_None"
  shows "vmap f xs keys \<noteq> Inl ValueError_both_None"
proof -
  have "list_all (\<lambda>r. r \<noteq> Inl ValueError_both_None) (map2 f (unstack xs) keys)"
    using assms by (auto simp: list_all_iff)
  then have "collect (map2 f (unstack xs) keys) \<noteq> Inl ValueError_both_None"
    by (rule collect_not_both_None)
  then show ?thesis
    by (auto simp: vmap_def stack_not_both_None split: list.splits sum.splits prod.splits)
qed

lemma resolve_starter_xs_not_both_None:
  "resolve_starter_xs J n_chains key init_scale starter_xs sample_shape
     \<noteq> Inl ValueError_both_None"
  by (cases starter_xs) (auto simp: random_normal_dims_not_both_None split: sum.splits)

text \<open>
  C3. A call ends in the \<^verbatim>\<open>ValueError\<close> of line 61 exactly when \<open>starter_xs\<close> and
  \<open>sample_shape\<close> are both \<^verbatim>\<open>None\<close>. With both absent the result is that error
  whatever the other arguments are (nothing of the sampling is evaluated, and an error
  is the whole result: there is no output); with at least one of them present, no path
  through the sampler ends in that error.
\<close>

theorem configuration_error_iff_both_None:
  "langevin_dynamics J n_chains n_samples key epsilon score_func params init_scale
       starter_xs sample_shape = Inl ValueError_both_None
   \<longleftrightarrow> starter_xs = None \<and> sample_shape = None"
proof (cases "starter_xs = None \<and> sample_shape = None")
  case True
  then show ?thesis by (simp add: langevin_dynamics_def)
next
  case False
  have "vmap (langevin_dynamics_one_chain J n_samples epsilon (score_func params) ss) b ks
          \<noteq> Inl ValueError_both_None" for ss b ks
    by (rule vmap_not_both_None) (rule one_chain_not_both_None)
  with False show ?thesis
    by (auto simp: langevin_dynamics_def Let_def resolve_starter_xs_not_both_None
        split: sum.splits prod.splits)
qed

section \<open>Worked runs\<close>

text \<open>The definitions a concrete run unfolds.\<close>

lemmas sampler_defs =
  langevin_dynamics_def vmap_def unstack_def random_split_def langevin_dynamics_one_chain_def
  inner_def random_normal_dims_def random_normal_def add_def broadcast2_def broadcast_shapes_def
  scalar_mul_def mul_scalar_def source_index_def stack_def vstack_def concatenate0_def
  atleast_2d_def Let_def

lemma example_run_with_starter:
  "langevin_dynamics example_runtime 2 2 1 2 zero_score () init_scale
       (Some \<lparr>shape = [2, 1], data = [0, 1]\<rparr>) None
     = Inr (\<lparr>shape = [2, 1], data = [0, 1]\<rparr>,
            \<lparr>shape = [2, 1], data = [402, 443]\<rparr>,
            \<lparr>shape = [2, 2, 1], data = [0, 200, 1, 221]\<rparr>)"
  by (simp add: sampler_defs example_runtime_def zero_score_def upt_rec)

section \<open>The starting batch\<close>

text \<open>
  C6. When \<open>starter_xs\<close> is supplied, a call that returns gives back that very array as
  its starting batch; the result does not depend on \<open>init_scale\<close>; and the only draws
  the result depends on are those of the per-sample shape \<open>d\<close>: replacing the
  generator by one that agrees with it on shape \<open>d\<close> (and is arbitrary on the batch
  shape an initialization would draw at) changes nothing.
\<close>

theorem starter_xs_used_as_is:
  "(langevin_dynamics J n_chains n_samples key epsilon score_func params init_scale (Some b)
        sample_shape = Inr (starting_batch, final_samples, samples)
      \<longrightarrow> starting_batch = b)
   \<and> langevin_dynamics J n_chains n_samples key epsilon score_func params init_scale' (Some b)
        sample_shape
     = langevin_dynamics J n_chains n_samples key epsilon score_func params init_scale (Some b)
        sample_shape
   \<and> (those (tl (resolve_sample_shape (Some b) sample_shape)) = Some d
        \<and> (\<forall>k i. g k d i = normal_at J k d i)
      \<longrightarrow> langevin_dynamics (J\<lparr>normal_at := g\<rparr>) n_chains n_samples key epsilon score_func params
            init_scale (Some b) sample_shape
          = langevin_dynamics J n_chains n_samples key epsilon score_func params init_scale
            (Some b) sample_shape)"
proof (intro conjI impI)
  assume "langevin_dynamics J n_chains n_samples key epsilon score_func params init_scale (Some b)
        sample_shape = Inr (starting_batch, final_samples, samples)"
  then show "starting_batch = b"
    by (auto simp: langevin_dynamics_Some split: sum.splits prod.splits)
next
  show "langevin_dynamics J n_chains n_samples key epsilon score_func params init_scale' (Some b)
        sample_shape
     = langevin_dynamics J n_chains n_samples key epsilon score_func params init_scale (Some b)
        sample_shape"
    by (simp add: langevin_dynamics_Some)
next
  assume "those (tl (resolve_sample_shape (Some b) sample_shape)) = Some d
        \<and> (\<forall>k i. g k d i = normal_at J k d i)"
  then show "langevin_dynamics (J\<lparr>normal_at := g\<rparr>) n_chains n_samples key epsilon score_func params
            init_scale (Some b) sample_shape
          = langevin_dynamics J n_chains n_samples key epsilon score_func params init_scale
            (Some b) sample_shape"
    by (simp add: langevin_dynamics_Some one_chain_cong random_split_def)
qed

theorem starter_xs_used_as_is_witness:
  "langevin_dynamics example_runtime 2 2 1 2 zero_score () 5
       (Some \<lparr>shape = [2, 1], data = [0, 1]\<rparr>) None
     = Inr (\<lparr>shape = [2, 1], data = [0, 1]\<rparr>,
            \<lparr>shape = [2, 1], data = [402, 443]\<rparr>,
            \<lparr>shape = [2, 2, 1], data = [0, 200, 1, 221]\<rparr>)
   \<and> langevin_dynamics example_runtime 2 2 1 2 zero_score () 7
       (Some \<lparr>shape = [2, 1], data = [0, 1]\<rparr>) None
     = langevin_dynamics example_runtime 2 2 1 2 zero_score () 5
       (Some \<lparr>shape = [2, 1], data = [0, 1]\<rparr>) None
   \<and> langevin_dynamics
       (example_runtime\<lparr>normal_at := \<lambda>k s i. if s = [1] then real (k + i) else 0\<rparr>)
       2 2 1 2 zero_score () 5 (Some \<lparr>shape = [2, 1], data = [0, 1]\<rparr>) None
     = langevin_dynamics example_runtime 2 2 1 2 zero_score () 5
       (Some \<lparr>shape = [2, 1], data = [0, 1]\<rparr>) None"
proof -
  have shp: "those (tl (resolve_sample_shape (Some \<lparr>shape = [2, 1], data = [0, 1 :: real]\<rparr>) None))
               = Some [1]
             \<and> (\<forall>k i. (\<lambda>k s i. if s = [1] then real (k + i) else 0) k [1] i
                        = normal_at example_runtime k [1] i)"
    by (simp add: example_runtime_def)
  show ?thesis
    using starter_xs_used_as_is
      [of example_runtime 2 2 1 2 zero_score "()" 5 "\<lparr>shape = [2, 1], data = [0, 1]\<rparr>" None
        "\<lparr>shape = [2, 1], data = [0, 1]\<rparr>" "\<lparr>shape = [2, 1], data = [402, 443]\<rparr>"
        "\<lparr>shape = [2, 2, 1], data = [0, 200, 1, 221]\<rparr>" 7 "[1]"
        "\<lambda>k s i. if s = [1] then real (k + i) else 0"]
      shp example_run_with_starter[of 5]
    by blast
qed

text \<open>
  C9. A supplied \<open>starter_xs\<close> whose leading axis does not have extent \<open>n_chains\<close>
  (or that has no axis at all) never produces a run: the call ends in an error. Lines 59
  to 68 contain no check of their own; the mismatch is rejected by \<^verbatim>\<open>vmap\<close> at
  line 101, which compares the leading extents of the batch and of the \<open>n_chains\<close>
  keys before any chain is run. Nothing else is done to the batch: it is handed to
  \<^verbatim>\<open>vmap\<close> and returned as it was supplied.
\<close>

theorem starter_xs_leading_dimension_checked:
  "((\<forall>s. shape b \<noteq> n_chains # s)
      \<longrightarrow> langevin_dynamics J n_chains n_samples key epsilon score_func params init_scale
            (Some b) sample_shape = Inl JaxShapeError)
   \<and> langevin_dynamics J n_chains n_samples key epsilon score_func params init_scale (Some b)
         sample_shape =
       (case vmap (langevin_dynamics_one_chain J n_samples epsilon (score_func params)
                     (resolve_sample_shape (Some b) sample_shape))
                  b (random_split J key n_chains) of
          Inl e \<Rightarrow> Inl e
        | Inr (final_samples, samples) \<Rightarrow> Inr (b, final_samples, samples))"
proof (intro conjI impI)
  assume mismatch: "\<forall>s. shape b \<noteq> n_chains # s"
  have "length (random_split J key n_chains) = n_chains"
    by (simp add: random_split_def)
  with mismatch have "vmap f b (random_split J key n_chains) = Inl JaxShapeError" for f
    by (intro vmap_size_mismatch) simp
  then show "langevin_dynamics J n_chains n_samples key epsilon score_func params init_scale
            (Some b) sample_shape = Inl JaxShapeError"
    by (simp add: langevin_dynamics_Some)
next
  show "langevin_dynamics J n_chains n_samples key epsilon score_func params init_scale (Some b)
         sample_shape =
       (case vmap (langevin_dynamics_one_chain J n_samples epsilon (score_func params)
                     (resolve_sample_shape (Some b) sample_shape))
                  b (random_split J key n_chains) of
          Inl e \<Rightarrow> Inl e
        | Inr (final_samples, samples) \<Rightarrow> Inr (b, final_samples, samples))"
    by (rule langevin_dynamics_Some)
qed

theorem starter_xs_leading_dimension_checked_witness:
  "langevin_dynamics example_runtime 2 2 1 2 zero_score () 5
     (Some \<lparr>shape = [3, 1], data = [0, 1, 2]\<rparr>) None = Inl JaxShapeError"
proof -
  have "\<forall>s. shape \<lparr>shape = [3, 1], data = [0, 1, 2 :: real]\<rparr> \<noteq> 2 # s"
    by simp
  then show ?thesis
    by (rule starter_xs_leading_dimension_checked[THEN conjunct1, THEN mp])
qed

text \<open>
  C10. A call without \<open>starter_xs\<close> does the following, whatever its other arguments:
  the starting batch has shape \<open>n_chains # d\<close> and holds, at position \<open>i\<close>, the draw
  \<open>normal_at J key (n_chains # d) i\<close> made with the top-level \<open>key\<close>, times
  \<open>init_scale\<close>; and the chains run on it with the keys \<open>subkey J key n_chains i\<close>,
  the split of that same, unsplit \<open>key\<close>.
\<close>

theorem initial_draw_and_chain_keys_from_same_key:
  "langevin_dynamics J n_chains n_samples key epsilon score_func params init_scale None
       (Some sample_shape) =
     (case those (tl sample_shape) of
        None \<Rightarrow> Inl JaxShapeError
      | Some d \<Rightarrow>
          (case vmap (langevin_dynamics_one_chain J n_samples epsilon (score_func params)
                        sample_shape)
                     \<lparr>shape = n_chains # d,
                      data = map (\<lambda>i. fmul J (normal_at J key (n_chains # d) i) init_scale)
                                 [0..<n_chains * prod_list d]\<rparr>
                     (map (subkey J key n_chains) [0..<n_chains]) of
             Inl e \<Rightarrow> Inl e
           | Inr (final_samples, samples) \<Rightarrow>
               Inr (\<lparr>shape = n_chains # d,
                     data = map (\<lambda>i. fmul J (normal_at J key (n_chains # d) i) init_scale)
                                [0..<n_chains * prod_list d]\<rparr>,
                    final_samples, samples)))"
  by (simp add: langevin_dynamics_def random_normal_dims_def random_normal_def mul_scalar_def
      random_split_def comp_def split: option.splits)

theorem initial_draw_and_chain_keys_from_same_key_witness:
  "langevin_dynamics example_runtime 2 2 1 2 zero_score () 5 None (Some [None, Some 1])
     = Inr (\<lparr>shape = [2, 1], data = [5, 10]\<rparr>,
            \<lparr>shape = [2, 1], data = [407, 452]\<rparr>,
            \<lparr>shape = [2, 2, 1], data = [5, 205, 10, 230]\<rparr>)"
  by (subst initial_draw_and_chain_keys_from_same_key)
    (simp add: vmap_def unstack_def langevin_dynamics_one_chain_def inner_def
      random_normal_dims_def random_normal_def random_split_def add_def broadcast2_def
      broadcast_shapes_def scalar_mul_def source_index_def stack_def vstack_def concatenate0_def
      atleast_2d_def example_runtime_def zero_score_def upt_rec)

section \<open>One step and one chain\<close>

lemma inner_snd: "inner J epsilon score sample_shape prev_x key = Inr (new_x, y) \<Longrightarrow> y = prev_x"
  by (auto simp: inner_def split: sum.splits option.splits)

lemma inner_same_shape:
  assumes draw: "random_normal_dims J key (tl sample_shape) = Inr z"
    and z: "shape z = shape prev_x"
    and score: "score prev_x = Some s"
    and s: "shape s = shape prev_x" "wf_ndarray s"
  shows "inner J epsilon score sample_shape prev_x key =
           Inr (\<lparr>shape = shape prev_x,
                 data = map (\<lambda>i. fadd J (fadd J (data prev_x ! i) (fmul J epsilon (data s ! i)))
                                        (fmul J (fsqrt J (fmul J (ftwo J) epsilon)) (data z ! i)))
                            [0..<prod_list (shape prev_x)]\<rparr>,
                prev_x)"
proof -
  have len_s: "length (data s) = prod_list (shape prev_x)"
    using s by (simp add: wf_ndarray_def)
  from draw obtain d where "those (tl sample_shape) = Some d" and zd: "z = random_normal J key d"
    by (auto simp: random_normal_dims_def split: option.splits)
  with z have len_z: "length (data z) = prod_list (shape prev_x)"
    by (simp add: random_normal_def)
  have t: "add J prev_x (scalar_mul J epsilon s) =
             Inr \<lparr>shape = shape prev_x,
                  data = map (\<lambda>i. fadd J (data prev_x ! i) (fmul J epsilon (data s ! i)))
                             [0..<prod_list (shape prev_x)]\<rparr>"
    using s(1) len_s by (simp add: add_def scalar_mul_def broadcast2_same_shape)
  have new_x: "add J \<lparr>shape = shape prev_x,
                  data = map (\<lambda>i. fadd J (data prev_x ! i) (fmul J epsilon (data s ! i)))
                             [0..<prod_list (shape prev_x)]\<rparr>
             (scalar_mul J (fsqrt J (fmul J (ftwo J) epsilon)) z) =
           Inr \<lparr>shape = shape prev_x,
                 data = map (\<lambda>i. fadd J (fadd J (data prev_x ! i) (fmul J epsilon (data s ! i)))
                                        (fmul J (fsqrt J (fmul J (ftwo J) epsilon)) (data z ! i)))
                            [0..<prod_list (shape prev_x)]\<rparr>"
    using z len_z by (simp add: add_def scalar_mul_def broadcast2_same_shape)
  show ?thesis
    by (simp add: inner_def draw score t new_x)
qed

lemma one_chain_states:
  assumes "langevin_dynamics_one_chain J n_samples epsilon score sample_shape x key
             = Inr (final_xs, trajectory)"
  shows "\<exists>xs. length xs = Suc n_samples \<and> xs ! 0 = x \<and> xs ! n_samples = final_xs
           \<and> (\<forall>t < n_samples.
                 inner J epsilon score sample_shape (xs ! t) (subkey J key n_samples t)
                   = Inr (xs ! Suc t, xs ! t))
           \<and> (\<forall>t \<le> n_samples. shape (xs ! t) = shape x)
           \<and> vstack (take n_samples xs) = Inr trajectory"
proof -
  let ?f = "inner J epsilon score sample_shape"
  let ?ks = "random_split J key n_samples"
  from assms obtain ys where
    sc: "scan ?f x ?ks = Inr (final_xs, ys)" and vs: "vstack ys = Inr trajectory"
    by (auto simp: langevin_dynamics_one_chain_def split: sum.splits prod.splits)
  have len: "length ?ks = n_samples" and nth: "\<And>t. t < n_samples \<Longrightarrow> ?ks ! t = subkey J key n_samples t"
    by (simp_all add: random_split_def)
  from scan_states[OF sc] len obtain xs where
    xs: "length xs = Suc n_samples" "xs ! 0 = x" "xs ! n_samples = final_xs"
        "length ys = n_samples"
        "\<forall>t < n_samples. ?f (xs ! t) (?ks ! t) = Inr (xs ! Suc t, ys ! t)"
        "\<forall>t \<le> n_samples. shape (xs ! t) = shape x"
    by auto
  have ys_nth: "ys ! t = xs ! t" if "t < n_samples" for t
    using xs(5) that
      inner_snd[of J epsilon score sample_shape "xs ! t" "?ks ! t" "xs ! Suc t" "ys ! t"]
    by simp
  have "ys = take n_samples xs"
    using xs(1,4) ys_nth by (intro nth_equalityI) auto
  moreover have "\<forall>t < n_samples. ?f (xs ! t) (subkey J key n_samples t) = Inr (xs ! Suc t, xs ! t)"
    using xs(5) ys_nth nth by auto
  ultimately show ?thesis
    using xs vs by (intro exI[of _ xs]) simp
qed

lemma atleast_2d_data: "data (atleast_2d x) = data x"
  by (simp add: atleast_2d_def split: list.splits)

lemma vstack_data: "vstack xs = Inr v \<Longrightarrow> data v = concat (map data xs)"
  by (auto simp: vstack_def concatenate0_def comp_def atleast_2d_data
      split: list.splits if_splits)

lemma atleast_2d_shape:
  "shape (atleast_2d x) = (case shape x of [] \<Rightarrow> [1, 1] | [d] \<Rightarrow> [1, d] | _ \<Rightarrow> shape x)"
  by (simp add: atleast_2d_def split: list.splits)

lemma sum_list_const: "(\<And>y. y \<in> set ys \<Longrightarrow> f y = (c::nat)) \<Longrightarrow> sum_list (map f ys) = length ys * c"
  by (induction ys) auto

lemma vstack_uniform:
  assumes "xs \<noteq> []" and "\<And>x. x \<in> set xs \<Longrightarrow> shape x = s"
  shows "vstack xs = Inr \<lparr>shape = vstack_shape (length xs) s, data = concat (map data xs)\<rparr>"
proof -
  from assms obtain x r where xs: "xs = x # r"
    by (cases xs) auto
  let ?s2 = "case s of [] \<Rightarrow> [1, 1] | [d] \<Rightarrow> [1, d] | _ \<Rightarrow> s"
  have sh: "shape (atleast_2d y) = ?s2" if "y \<in> set xs" for y
    using assms(2)[OF that] by (auto simp: atleast_2d_shape split: list.splits)
  have ne: "?s2 \<noteq> []"
    by (simp split: list.splits)
  have all: "list_all (\<lambda>y. shape y \<noteq> [] \<and> tl (shape y) = tl (shape (atleast_2d x))) (map atleast_2d r)"
    using sh ne xs by (simp add: list_all_iff)
  have "sum_list (map (\<lambda>y. hd (shape y)) (map atleast_2d xs)) = length xs * hd ?s2"
    using sh by (simp add: comp_def sum_list_const)
  moreover have "(length xs * hd ?s2) # tl ?s2 = vstack_shape (length xs) s"
    by (simp add: vstack_shape_def split: list.splits)
  moreover have "concat (map data (map atleast_2d xs)) = concat (map data xs)"
    by (simp add: comp_def atleast_2d_data)
  ultimately show ?thesis
    using all sh[of x] ne xs
    by (simp add: vstack_def concatenate0_def del: map_map)
qed

lemma inner_zero_score:
  assumes draw: "those (tl sample_shape) = Some (shape x)"
    and zero: "score x = Some \<lparr>shape = shape x, data = replicate (prod_list (shape x)) zero\<rparr>"
    and arith: "\<forall>v. fadd J v (fmul J epsilon zero) = v"
  shows "inner J epsilon score sample_shape x key =
           Inr (\<lparr>shape = shape x,
                 data = map (\<lambda>i. fadd J (data x ! i)
                                   (fmul J (fsqrt J (fmul J (ftwo J) epsilon))
                                      (normal_at J key (shape x) i)))
                            [0..<prod_list (shape x)]\<rparr>,
                x)"
proof -
  have "inner J epsilon score sample_shape x key =
           Inr (\<lparr>shape = shape x,
                 data = map (\<lambda>i. fadd J (fadd J (data x ! i)
                               (fmul J epsilon
                                  (data \<lparr>shape = shape x,
                                         data = replicate (prod_list (shape x)) zero\<rparr> ! i)))
                            (fmul J (fsqrt J (fmul J (ftwo J) epsilon))
                               (data (random_normal J key (shape x)) ! i)))
                            [0..<prod_list (shape x)]\<rparr>,
                x)"
    by (rule inner_same_shape)
      (simp_all add: random_normal_dims_def draw zero random_normal_def wf_ndarray_def)
  moreover have
    "map (\<lambda>i. fadd J (fadd J (data x ! i)
                               (fmul J epsilon
                                  (data \<lparr>shape = shape x,
                                         data = replicate (prod_list (shape x)) zero\<rparr> ! i)))
                            (fmul J (fsqrt J (fmul J (ftwo J) epsilon))
                               (data (random_normal J key (shape x)) ! i)))
         [0..<prod_list (shape x)]
     = map (\<lambda>i. fadd J (data x ! i)
                    (fmul J (fsqrt J (fmul J (ftwo J) epsilon)) (normal_at J key (shape x) i)))
           [0..<prod_list (shape x)]"
    using arith by (intro map_cong) (simp_all add: random_normal_def)
  ultimately show ?thesis
    by simp
qed

lemma vstack_Nil: "vstack [] = Inl JaxShapeError"
  by (simp add: vstack_def concatenate0_def)

lemma one_chain_shapes:
  assumes "langevin_dynamics_one_chain J n_samples epsilon score sample_shape x key
             = Inr (final_xs, trajectory)"
  shows "0 < n_samples \<and> shape final_xs = shape x
           \<and> shape trajectory = vstack_shape n_samples (shape x)"
proof -
  from one_chain_states[OF assms] obtain xs where
    xs: "length xs = Suc n_samples" "xs ! n_samples = final_xs"
        "\<forall>t \<le> n_samples. shape (xs ! t) = shape x"
        "vstack (take n_samples xs) = Inr trajectory"
    by blast
  have pos: "0 < n_samples"
    using xs(4) by (cases n_samples) (simp_all add: vstack_Nil)
  have "shape y = shape x" if "y \<in> set (take n_samples xs)" for y
    using that xs(1,3) by (auto simp: in_set_conv_nth)
  moreover have "take n_samples xs \<noteq> []"
    using pos xs(1) by auto
  ultimately have "vstack (take n_samples xs) =
      Inr \<lparr>shape = vstack_shape (length (take n_samples xs)) (shape x),
           data = concat (map data (take n_samples xs))\<rparr>"
    by (intro vstack_uniform) auto
  with xs(1,4) have "shape trajectory = vstack_shape n_samples (shape x)"
    by auto
  with pos xs(2,3) show ?thesis
    by auto
qed

lemma example_draw:
  "random_normal_dims example_runtime 100 (tl [None, Some 1]) = Inr \<lparr>shape = [1], data = [100]\<rparr>"
  by (simp add: random_normal_dims_def random_normal_def example_runtime_def)

lemma example_chain:
  "langevin_dynamics_one_chain example_runtime 2 2 (zero_score ()) [None, Some 1]
     \<lparr>shape = [1], data = [0]\<rparr> 10
   = Inr (\<lparr>shape = [1], data = [402]\<rparr>, \<lparr>shape = [2, 1], data = [0, 200]\<rparr>)"
  by (simp add: sampler_defs example_runtime_def zero_score_def upt_rec)

text \<open>
  C1. One integration step. Let \<open>z\<close> be the draw the step makes with its key, of the
  shape of the current state \<open>x\<close>, and let the score function return \<open>s\<close>, a
  well-formed array of that shape. Then the step returns the pair of the new state and
  \<open>x\<close>, where the new state has the shape of \<open>x\<close> and at every position \<open>i\<close> the
  value \<open>x[i] + epsilon * s[i] + sqrt(2 * epsilon) * z[i]\<close>, the operations being those
  of the runtime and nested as written. The result is a function of \<open>x\<close>, \<open>z\<close>,
  \<open>epsilon\<close> and the score alone.
\<close>

theorem inner_is_euler_maruyama_step:
  assumes "random_normal_dims J key (tl sample_shape) = Inr z"
    and "shape z = shape x"
    and "score_func params x = Some s"
    and "shape s = shape x"
    and "wf_ndarray s"
  shows "\<exists>x'. inner J epsilon (score_func params) sample_shape x key = Inr (x', x)
           \<and> shape x' = shape x
           \<and> length (data x') = prod_list (shape x)
           \<and> (\<forall>i < prod_list (shape x).
                 data x' ! i =
                   fadd J (fadd J (data x ! i) (fmul J epsilon (data s ! i)))
                          (fmul J (fsqrt J (fmul J (ftwo J) epsilon)) (data z ! i)))"
  using inner_same_shape[where score = "score_func params", OF assms, of epsilon] by simp

theorem inner_is_euler_maruyama_step_witness:
  "\<exists>x'. inner example_runtime 2 (zero_score ()) [None, Some 1] \<lparr>shape = [1], data = [0]\<rparr> 100
            = Inr (x', \<lparr>shape = [1], data = [0]\<rparr>)
      \<and> shape x' = shape \<lparr>shape = [1], data = [0 :: real]\<rparr>
      \<and> length (data x') = prod_list (shape \<lparr>shape = [1], data = [0 :: real]\<rparr>)
      \<and> (\<forall>i < prod_list (shape \<lparr>shape = [1], data = [0 :: real]\<rparr>).
            data x' ! i =
              fadd example_runtime
                (fadd example_runtime (data \<lparr>shape = [1], data = [0]\<rparr> ! i)
                   (fmul example_runtime 2 (data \<lparr>shape = [1], data = [0]\<rparr> ! i)))
                (fmul example_runtime (fsqrt example_runtime (fmul example_runtime
                     (ftwo example_runtime) 2))
                   (data \<lparr>shape = [1], data = [100]\<rparr> ! i)))"
proof (rule inner_is_euler_maruyama_step)
  show "random_normal_dims example_runtime 100 (tl [None, Some 1])
          = Inr \<lparr>shape = [1], data = [100]\<rparr>"
    by (rule example_draw)
  show "zero_score () \<lparr>shape = [1], data = [0]\<rparr> = Some \<lparr>shape = [1], data = [0]\<rparr>"
    by (simp add: zero_score_def)
  show "wf_ndarray \<lparr>shape = [1], data = [0 :: real]\<rparr>"
    by (simp add: wf_ndarray_def)
qed simp_all

text \<open>
  C2. A chain that returns went through states \<open>x\<^sub>0, ..., x\<^sub>T\<close> (\<open>T = n_samples\<close>),
  each obtained from the one before by one step with subkey \<open>t\<close> of the chain's key. The
  step at \<open>t\<close> emits the state \<open>x\<^sub>t\<close> it started from; the trajectory is
  \<^verbatim>\<open>np.vstack\<close> of \<open>[x\<^sub>0, ..., x\<^sub>T\<^sub>-\<^sub>1]\<close>, its elements are those of these \<open>T\<close>
  states in order, and for states with one axis of extent \<open>d\<close> it is the \<open>T\<close> by
  \<open>d\<close> array of them. The final state is \<open>x\<^sub>T\<close>, the entry after the last recorded
  one: no position of the trajectory holds it.
\<close>

theorem one_chain_trajectory_and_final_state:
  assumes "langevin_dynamics_one_chain J n_samples epsilon score sample_shape x0 key
             = Inr (final_xs, trajectory)"
  shows "\<exists>xs. length xs = Suc n_samples \<and> xs ! 0 = x0
           \<and> (\<forall>t < n_samples.
                 inner J epsilon score sample_shape (xs ! t) (subkey J key n_samples t)
                   = Inr (xs ! Suc t, xs ! t))
           \<and> final_xs = xs ! n_samples
           \<and> vstack (take n_samples xs) = Inr trajectory
           \<and> data trajectory = concat (map data (take n_samples xs))
           \<and> (\<forall>d. shape x0 = [d] \<longrightarrow> shape trajectory = [n_samples, d])"
proof -
  from one_chain_states[OF assms] obtain xs where
    xs: "length xs = Suc n_samples" "xs ! 0 = x0" "xs ! n_samples = final_xs"
        "\<forall>t < n_samples.
           inner J epsilon score sample_shape (xs ! t) (subkey J key n_samples t)
             = Inr (xs ! Suc t, xs ! t)"
        "vstack (take n_samples xs) = Inr trajectory"
    by blast
  have "\<forall>d. shape x0 = [d] \<longrightarrow> shape trajectory = [n_samples, d]"
    using one_chain_shapes[OF assms] by (simp add: vstack_shape_def)
  with vstack_data[OF xs(5)] xs show ?thesis
    by (intro exI[of _ xs]) simp
qed

theorem one_chain_trajectory_and_final_state_witness:
  "\<exists>xs. length xs = Suc 2 \<and> xs ! 0 = \<lparr>shape = [1], data = [0]\<rparr>
      \<and> (\<forall>t < 2.
            inner example_runtime 2 (zero_score ()) [None, Some 1] (xs ! t)
                (subkey example_runtime 10 2 t)
              = Inr (xs ! Suc t, xs ! t))
      \<and> \<lparr>shape = [1], data = [402]\<rparr> = xs ! 2
      \<and> vstack (take 2 xs) = Inr \<lparr>shape = [2, 1], data = [0, 200]\<rparr>
      \<and> data \<lparr>shape = [2, 1], data = [0, 200 :: real]\<rparr> = concat (map data (take 2 xs))
      \<and> (\<forall>d. shape \<lparr>shape = [1], data = [0 :: real]\<rparr> = [d]
             \<longrightarrow> shape \<lparr>shape = [2, 1], data = [0, 200 :: real]\<rparr> = [2, d])"
  by (rule one_chain_trajectory_and_final_state [OF example_chain])

text \<open>
  C7. Let the score function return zeros of the shape of its argument, let the
  arithmetic satisfy \<open>v + epsilon * 0 = v\<close>, and let the draws have the shape of the
  state. Then in a chain that returns, every state is the previous one plus
  \<open>sqrt(2 * epsilon)\<close> times the draw of that step, position by position:
  \<open>x\<^sub>t\<^sub>+\<^sub>1[i] = x\<^sub>t[i] + sqrt(2 * epsilon) * z\<^sub>t[i]\<close>, with \<open>z\<^sub>t\<close> drawn with subkey
  \<open>t\<close>; the recorded trajectory is \<open>x\<^sub>0, ..., x\<^sub>T\<^sub>-\<^sub>1\<close> and the final state \<open>x\<^sub>T\<close>.
\<close>

theorem zero_score_gives_random_walk:
  assumes zero: "\<forall>x. score_func params x =
                   Some \<lparr>shape = shape x, data = replicate (prod_list (shape x)) zero\<rparr>"
    and arith: "\<forall>v. fadd J v (fmul J epsilon zero) = v"
    and draw: "those (tl sample_shape) = Some (shape x0)"
    and run: "langevin_dynamics_one_chain J n_samples epsilon (score_func params) sample_shape
                x0 key = Inr (final_xs, trajectory)"
  shows "\<exists>xs. length xs = Suc n_samples \<and> xs ! 0 = x0 \<and> xs ! n_samples = final_xs
           \<and> vstack (take n_samples xs) = Inr trajectory
           \<and> (\<forall>t < n_samples.
                 xs ! Suc t =
                   \<lparr>shape = shape x0,
                    data = map (\<lambda>i. fadd J (data (xs ! t) ! i)
                                      (fmul J (fsqrt J (fmul J (ftwo J) epsilon))
                                         (normal_at J (subkey J key n_samples t) (shape x0) i)))
                               [0..<prod_list (shape x0)]\<rparr>)"
proof -
  from one_chain_states[OF run] obtain xs where
    xs: "length xs = Suc n_samples" "xs ! 0 = x0" "xs ! n_samples = final_xs"
        "\<forall>t < n_samples.
           inner J epsilon (score_func params) sample_shape (xs ! t) (subkey J key n_samples t)
             = Inr (xs ! Suc t, xs ! t)"
        "\<forall>t \<le> n_samples. shape (xs ! t) = shape x0"
        "vstack (take n_samples xs) = Inr trajectory"
    by blast
  have "xs ! Suc t =
          \<lparr>shape = shape x0,
           data = map (\<lambda>i. fadd J (data (xs ! t) ! i)
                             (fmul J (fsqrt J (fmul J (ftwo J) epsilon))
                                (normal_at J (subkey J key n_samples t) (shape x0) i)))
                      [0..<prod_list (shape x0)]\<rparr>"
    if t: "t < n_samples" for t
  proof -
    have sh: "shape (xs ! t) = shape x0"
      using xs(5) t by simp
    have "inner J epsilon (score_func params) sample_shape (xs ! t) (subkey J key n_samples t) =
            Inr (\<lparr>shape = shape (xs ! t),
                  data = map (\<lambda>i. fadd J (data (xs ! t) ! i)
                                    (fmul J (fsqrt J (fmul J (ftwo J) epsilon))
                                       (normal_at J (subkey J key n_samples t) (shape (xs ! t)) i)))
                             [0..<prod_list (shape (xs ! t))]\<rparr>,
                 xs ! t)"
      using draw zero arith sh by (intro inner_zero_score) simp_all
    with xs(4) t sh show ?thesis
      by simp
  qed
  with xs show ?thesis
    by (intro exI[of _ xs]) simp
qed

theorem zero_score_gives_random_walk_witness:
  "\<exists>xs. length xs = Suc 2 \<and> xs ! 0 = \<lparr>shape = [1], data = [0]\<rparr>
      \<and> xs ! 2 = \<lparr>shape = [1], data = [402]\<rparr>
      \<and> vstack (take 2 xs) = Inr \<lparr>shape = [2, 1], data = [0, 200]\<rparr>
      \<and> (\<forall>t < 2.
            xs ! Suc t =
              \<lparr>shape = shape \<lparr>shape = [1], data = [0 :: real]\<rparr>,
               data = map (\<lambda>i. fadd example_runtime (data (xs ! t) ! i)
                                 (fmul example_runtime
                                    (fsqrt example_runtime
                                       (fmul example_runtime (ftwo example_runtime) 2))
                                    (normal_at example_runtime (subkey example_runtime 10 2 t)
                                       (shape \<lparr>shape = [1], data = [0 :: real]\<rparr>) i)))
                          [0..<prod_list (shape \<lparr>shape = [1], data = [0 :: real]\<rparr>)]\<rparr>)"
proof (rule zero_score_gives_random_walk [where zero = 0 and score_func = zero_score
      and params = "()" and sample_shape = "[None, Some 1]"])
  show "\<forall>x. zero_score () x = Some \<lparr>shape = shape x, data = replicate (prod_list (shape x)) 0\<rparr>"
    by (simp add: zero_score_def)
  show "\<forall>v. fadd example_runtime v (fmul example_runtime 2 0) = v"
    by (simp add: example_runtime_def)
  show "those (tl [None, Some 1]) = Some (shape \<lparr>shape = [1], data = [0 :: real]\<rparr>)"
    by simp
  show "langevin_dynamics_one_chain example_runtime 2 2 (zero_score ()) [None, Some 1]
          \<lparr>shape = [1], data = [0]\<rparr> 10
        = Inr (\<lparr>shape = [1], data = [402]\<rparr>, \<lparr>shape = [2, 1], data = [0, 200]\<rparr>)"
    by (rule example_chain)
qed

section \<open>The chains of a batch\<close>

subsection \<open>Blocks of a concatenation\<close>

lemma length_concat_uniform:
  "(\<And>x. x \<in> set xss \<Longrightarrow> length x = m) \<Longrightarrow> length (concat xss) = length xss * m"
  by (induction xss) auto

lemma take_drop_concat_uniform:
  "(\<And>x. x \<in> set xss \<Longrightarrow> length x = m) \<Longrightarrow> i < length xss \<Longrightarrow>
   take m (drop (i * m) (concat xss)) = xss ! i"
proof (induction xss arbitrary: i)
  case Nil
  then show ?case by simp
next
  case (Cons xs xss)
  show ?case
  proof (cases i)
    case 0
    with Cons.prems show ?thesis by simp
  next
    case (Suc j)
    with Cons.prems have "take m (drop (j * m) (concat xss)) = xss ! j"
      by (intro Cons.IH) auto
    with Suc Cons.prems(1)[of xs] show ?thesis
      by simp
  qed
qed

subsection \<open>Stacking and unstacking\<close>

lemma unstack_length: "shape x = n # s \<Longrightarrow> length (unstack x) = n"
  by (simp add: unstack_def)

lemma unstack_nth:
  "shape x = n # s \<Longrightarrow> i < n \<Longrightarrow>
   unstack x ! i = \<lparr>shape = s, data = take (prod_list s) (drop (i * prod_list s) (data x))\<rparr>"
  by (simp add: unstack_def)

lemma unstack_wf:
  assumes "wf_ndarray x" and "shape x = n # s" and "i < n"
  shows "wf_ndarray (unstack x ! i)"
proof -
  have "length (data x) = n * prod_list s"
    using assms(1,2) by (simp add: wf_ndarray_def)
  moreover have "(i + 1) * prod_list s \<le> n * prod_list s"
    using assms(3) by (intro mult_le_mono1) simp
  ultimately show ?thesis
    using assms(2,3) by (simp add: unstack_nth wf_ndarray_def)
qed

lemma stack_Inr:
  assumes "stack xs = Inr a" and "xs \<noteq> []"
  shows "shape a = length xs # shape (hd xs) \<and> data a = concat (map data xs)
           \<and> (\<forall>x \<in> set xs. shape x = shape (hd xs))"
  using assms by (cases xs) (auto simp: stack_def list_all_iff split: if_splits)

lemma unstack_stack:
  assumes "stack xs = Inr a" and wf: "\<And>x. x \<in> set xs \<Longrightarrow> wf_ndarray x"
  shows "unstack a = xs"
proof (cases xs)
  case Nil
  with assms(1) show ?thesis
    by (auto simp: stack_def unstack_def)
next
  case (Cons x r)
  then have ne: "xs \<noteq> []" by simp
  let ?s = "shape (hd xs)"
  from stack_Inr[OF assms(1) ne] have
    a: "shape a = length xs # ?s" "data a = concat (map data xs)"
    and sh: "\<And>y. y \<in> set xs \<Longrightarrow> shape y = ?s"
    by auto
  have len: "length y = prod_list ?s" if "y \<in> set (map data xs)" for y
    using that wf sh by (auto simp: wf_ndarray_def)
  show ?thesis
  proof (rule nth_equalityI)
    show "length (unstack a) = length xs"
      using a(1) by (simp add: unstack_length)
  next
    fix i assume "i < length (unstack a)"
    then have i: "i < length xs"
      using a(1) by (simp add: unstack_length)
    have "take (prod_list ?s) (drop (i * prod_list ?s) (concat (map data xs))) = map data xs ! i"
      using len i by (intro take_drop_concat_uniform) auto
    then have "unstack a ! i = \<lparr>shape = ?s, data = data (xs ! i)\<rparr>"
      using a i by (simp add: unstack_nth)
    also have "\<dots> = xs ! i"
      using sh[of "xs ! i"] i by simp
    finally show "unstack a ! i = xs ! i" .
  qed
qed

subsection \<open>What a successful \<open>vmap\<close> did\<close>

lemma collect_Inr: "collect rs = Inr vs \<Longrightarrow> rs = map Inr vs"
  by (induction rs arbitrary: vs) (auto split: sum.splits)

lemma collect_map_Inr: "collect (map Inr vs) = Inr vs"
  by (induction vs) auto

lemma vmap_Inr:
  assumes "vmap f xs keys = Inr (finals, samples)"
  shows "\<exists>s rs. shape xs = length keys # s \<and> length rs = length keys
           \<and> (\<forall>i < length keys. f (unstack xs ! i) (keys ! i) = Inr (rs ! i))
           \<and> stack (map fst rs) = Inr finals \<and> stack (map snd rs) = Inr samples"
proof -
  from assms obtain s rs where
    sh: "shape xs = length keys # s"
    and co: "collect (map2 f (unstack xs) keys) = Inr rs"
    and st: "stack (map fst rs) = Inr finals" "stack (map snd rs) = Inr samples"
    by (auto simp: vmap_def split: list.splits if_splits sum.splits)
  from collect_Inr[OF co] have eq: "map2 f (unstack xs) keys = map Inr rs" .
  have lu: "length (unstack xs) = length keys"
    using sh by (rule unstack_length)
  from eq lu have len: "length rs = length keys"
    by (metis length_map length_zip min.idem)
  have "f (unstack xs ! i) (keys ! i) = Inr (rs ! i)" if "i < length keys" for i
  proof -
    have "f (unstack xs ! i) (keys ! i) = map2 f (unstack xs) keys ! i"
      using that lu by simp
    also have "\<dots> = map Inr rs ! i"
      by (simp only: eq)
    also have "\<dots> = Inr (rs ! i)"
      using that len by simp
    finally show ?thesis .
  qed
  with sh len st show ?thesis
    by blast
qed

subsection \<open>Well-formed outputs\<close>

lemma broadcast2_wf: "broadcast2 f x y = Inr r \<Longrightarrow> wf_ndarray r"
  by (auto simp: broadcast2_def wf_ndarray_def split: option.splits)

lemma inner_wf: "inner J epsilon score sample_shape prev_x key = Inr (new_x, y) \<Longrightarrow> wf_ndarray new_x"
  by (auto simp: inner_def add_def broadcast2_wf split: sum.splits option.splits)

lemma prod_list_vstack_shape: "prod_list (vstack_shape n s) = n * prod_list s"
  by (simp add: vstack_shape_def split: list.splits)

lemma one_chain_wf:
  assumes run: "langevin_dynamics_one_chain J n_samples epsilon score sample_shape x key
             = Inr (final_xs, trajectory)"
    and wf: "wf_ndarray x"
  shows "wf_ndarray final_xs \<and> wf_ndarray trajectory"
proof -
  from one_chain_states[OF run] obtain xs where
    xs: "length xs = Suc n_samples" "xs ! 0 = x" "xs ! n_samples = final_xs"
        "\<forall>t < n_samples.
           inner J epsilon score sample_shape (xs ! t) (subkey J key n_samples t)
             = Inr (xs ! Suc t, xs ! t)"
        "\<forall>t \<le> n_samples. shape (xs ! t) = shape x"
        "vstack (take n_samples xs) = Inr trajectory"
    by blast
  have wf_t: "wf_ndarray (xs ! t)" if "t \<le> n_samples" for t
  proof (cases t)
    case 0
    with xs(2) wf show ?thesis by simp
  next
    case (Suc u)
    with that xs(4) have
      "inner J epsilon score sample_shape (xs ! u) (subkey J key n_samples u)
         = Inr (xs ! Suc u, xs ! u)"
      by simp
    with Suc show ?thesis
      by (auto dest: inner_wf)
  qed
  have "length y = prod_list (shape x)" if "y \<in> set (map data (take n_samples xs))" for y
  proof -
    from that xs(1) obtain t where "t < n_samples" "y = data (xs ! t)"
      by (auto simp: in_set_conv_nth)
    with wf_t[of t] xs(5) show ?thesis
      by (simp add: wf_ndarray_def)
  qed
  then have "length (concat (map data (take n_samples xs)))
               = length (map data (take n_samples xs)) * prod_list (shape x)"
    by (rule length_concat_uniform)
  with xs(1) vstack_data[OF xs(6)] one_chain_shapes[OF run]
  have "wf_ndarray trajectory"
    by (simp add: wf_ndarray_def prod_list_vstack_shape)
  with wf_t[of n_samples] xs(3) show ?thesis
    by simp
qed

lemma resolve_starter_xs_wf:
  assumes "resolve_starter_xs J n_chains key init_scale starter_xs sample_shape = Inr b"
    and "case starter_xs of None \<Rightarrow> True | Some x \<Rightarrow> wf_ndarray x"
  shows "wf_ndarray b"
  using assms
  by (cases starter_xs)
    (auto simp: random_normal_dims_def random_normal_def mul_scalar_def wf_ndarray_def
      split: option.splits sum.splits)

lemma langevin_dynamics_chains:
  assumes "langevin_dynamics J n_chains n_samples key epsilon score_func params init_scale
             starter_xs sample_shape = Inr (starting_batch, final_samples, samples)"
  shows "\<exists>d rs. shape starting_batch = n_chains # d \<and> length rs = n_chains
           \<and> resolve_starter_xs J n_chains key init_scale starter_xs
                 (resolve_sample_shape starter_xs sample_shape) = Inr starting_batch
           \<and> (\<forall>i < n_chains.
                 langevin_dynamics_one_chain J n_samples epsilon (score_func params)
                     (resolve_sample_shape starter_xs sample_shape)
                     (unstack starting_batch ! i) (subkey J key n_chains i)
                   = Inr (rs ! i))
           \<and> stack (map fst rs) = Inr final_samples
           \<and> stack (map snd rs) = Inr samples"
proof -
  let ?ss = "resolve_sample_shape starter_xs sample_shape"
  let ?f = "langevin_dynamics_one_chain J n_samples epsilon (score_func params) ?ss"
  let ?keys = "random_split J key n_chains"
  from assms have
    st: "resolve_starter_xs J n_chains key init_scale starter_xs ?ss = Inr starting_batch"
    and vm: "vmap ?f starting_batch ?keys = Inr (final_samples, samples)"
    by (auto simp: langevin_dynamics_def Let_def split: if_splits sum.splits prod.splits)
  have len: "length ?keys = n_chains"
    and nth: "\<And>i. i < n_chains \<Longrightarrow> ?keys ! i = subkey J key n_chains i"
    by (simp_all add: random_split_def)
  from vmap_Inr[OF vm] len obtain d rs where
    r: "shape starting_batch = n_chains # d" "length rs = n_chains"
       "\<forall>i < n_chains. ?f (unstack starting_batch ! i) (?keys ! i) = Inr (rs ! i)"
       "stack (map fst rs) = Inr final_samples" "stack (map snd rs) = Inr samples"
    by auto
  from r(3) nth have
    "\<forall>i < n_chains. ?f (unstack starting_batch ! i) (subkey J key n_chains i) = Inr (rs ! i)"
    by simp
  with r st show ?thesis
    by blast
qed

section \<open>The shapes of the outputs\<close>

text \<open>
  For at least one chain, a call that returns has a starting batch of shape
  \<open>n_chains # d\<close>, final samples of the same shape, and samples of shape
  \<open>n_chains # vstack_shape n_samples d\<close>: the per-chain trajectory has the shape
  \<^verbatim>\<open>np.vstack\<close> gives it.
\<close>

lemma langevin_dynamics_shapes:
  assumes run: "langevin_dynamics J n_chains n_samples key epsilon score_func params init_scale
             starter_xs sample_shape = Inr (starting_batch, final_samples, samples)"
    and pos: "0 < n_chains"
  shows "\<exists>d. shape starting_batch = n_chains # d \<and> shape final_samples = n_chains # d
           \<and> shape samples = n_chains # vstack_shape n_samples d"
proof -
  let ?f = "langevin_dynamics_one_chain J n_samples epsilon (score_func params)
              (resolve_sample_shape starter_xs sample_shape)"
  from langevin_dynamics_chains[OF run] obtain d rs where
    r: "shape starting_batch = n_chains # d" "length rs = n_chains"
       "\<forall>i < n_chains. ?f (unstack starting_batch ! i) (subkey J key n_chains i) = Inr (rs ! i)"
       "stack (map fst rs) = Inr final_samples" "stack (map snd rs) = Inr samples"
    by blast
  from pos r(2) have ne: "rs \<noteq> []" by auto
  have row: "shape (unstack starting_batch ! 0) = d"
    using r(1) pos by (simp add: unstack_nth)
  from r(3) pos have "?f (unstack starting_batch ! 0) (subkey J key n_chains 0) = Inr (rs ! 0)"
    by simp
  then have "?f (unstack starting_batch ! 0) (subkey J key n_chains 0)
               = Inr (fst (rs ! 0), snd (rs ! 0))"
    by simp
  from one_chain_shapes[OF this] have
    "shape (fst (rs ! 0)) = shape (unstack starting_batch ! 0)"
    "shape (snd (rs ! 0)) = vstack_shape n_samples (shape (unstack starting_batch ! 0))"
    by simp_all
  then have sh0: "shape (fst (rs ! 0)) = d" "shape (snd (rs ! 0)) = vstack_shape n_samples d"
    by (simp_all only: row)
  have hd0: "hd (map fst rs) = fst (rs ! 0)" "hd (map snd rs) = snd (rs ! 0)"
    using ne by (simp_all add: hd_map hd_conv_nth)
  have ne2: "map fst rs \<noteq> []" "map snd rs \<noteq> []"
    using ne by simp_all
  have "shape final_samples = length (map fst rs) # shape (hd (map fst rs))"
    using stack_Inr[OF r(4) ne2(1)] by simp
  then have f: "shape final_samples = n_chains # d"
    by (simp only: hd0 sh0 length_map r(2))
  have "shape samples = length (map snd rs) # shape (hd (map snd rs))"
    using stack_Inr[OF r(5) ne2(2)] by simp
  then have "shape samples = n_chains # vstack_shape n_samples d"
    by (simp only: hd0 sh0 length_map r(2))
  with f r(1) show ?thesis
    by blast
qed

lemma langevin_dynamics_shapes_rank1:
  assumes "langevin_dynamics J n_chains n_samples key epsilon score_func params init_scale
             starter_xs sample_shape = Inr (starting_batch, final_samples, samples)"
    and "0 < n_chains" and "shape starting_batch = [n_chains, d]"
  shows "shape final_samples = [n_chains, d] \<and> shape samples = [n_chains, n_samples, d]"
  using langevin_dynamics_shapes[OF assms(1,2)] assms(3) by (auto simp: vstack_shape_def)

lemma samples_shape_of_scalar_samples:
  "map_sum id (\<lambda>(starting_batch, final_samples, samples).
        (shape starting_batch, shape final_samples, shape samples))
     (langevin_dynamics example_runtime 2 3 1 2 zero_score () 5
        (Some \<lparr>shape = [2], data = [0, 1]\<rparr>) None)
   = Inr ([2], [2], [2, 3, 1])"
  by (simp add: sampler_defs example_runtime_def zero_score_def upt_rec)

text \<open>
  C5. The claim is that \<open>samples\<close> has shape \<open>(n_chains, n_samples, *D)\<close>. That
  holds when a sample has one axis (\<open>langevin_dynamics_shapes_rank1\<close>). It fails for
  samples with two axes: with \<open>n_chains = 1\<close>, \<open>n_samples = 2\<close> and
  \<open>sample_shape = (None, 2, 2)\<close> the starting batch and the final samples have shape
  \<open>(1, 2, 2)\<close> and \<open>samples\<close> has shape \<open>(1, 4, 2)\<close>, not \<open>(1, 2, 2, 2)\<close>:
  \<^verbatim>\<open>np.vstack\<close> at line 98 joins the two recorded 2 by 2 states along their own first
  axis. (For scalar samples it appends an axis of extent 1:
  \<open>samples_shape_of_scalar_samples\<close>.)
\<close>

theorem samples_shape_of_matrix_valued_samples:
  "map_sum id (\<lambda>(starting_batch, final_samples, samples).
        (shape starting_batch, shape final_samples, shape samples))
     (langevin_dynamics example_runtime 1 2 1 2 zero_score () 5 None
        (Some [None, Some 2, Some 2]))
   = Inr ([1, 2, 2], [1, 2, 2], [1, 4, 2])"
  by (simp add: sampler_defs example_runtime_def zero_score_def upt_rec)

section \<open>Sequential and vectorized execution\<close>

lemma sequential_loop_collect:
  "length rows = n \<Longrightarrow> length keys = n \<Longrightarrow> i \<le> n \<Longrightarrow>
   sequential_loop f rows keys n i acc =
     (case collect (map2 f (drop i rows) (drop i keys)) of
        Inl e \<Rightarrow> Inl e
      | Inr rs \<Rightarrow> Inr (acc @ rs))"
proof (induction f rows keys n i acc rule: sequential_loop.induct)
  case (1 f rows keys n i acc)
  show ?case
  proof (cases "i < n")
    case False
    with "1.prems" show ?thesis
      by (simp add: sequential_loop.simps[of f rows keys n i acc])
  next
    case True
    with "1.prems" have d: "drop i rows = rows ! i # drop (Suc i) rows"
      "drop i keys = keys ! i # drop (Suc i) keys"
      by (simp_all add: Cons_nth_drop_Suc)
    show ?thesis
    proof (cases "f (rows ! i) (keys ! i)")
      case (Inl e)
      with True d show ?thesis
        by (simp add: sequential_loop.simps[of f rows keys n i acc])
    next
      case (Inr r)
      with True "1.prems" have
        "sequential_loop f rows keys n (Suc i) (acc @ [r]) =
           (case collect (map2 f (drop (Suc i) rows) (drop (Suc i) keys)) of
              Inl e \<Rightarrow> Inl e
            | Inr rs \<Rightarrow> Inr ((acc @ [r]) @ rs))"
        by (intro "1.IH") auto
      with True Inr d show ?thesis
        by (simp add: sequential_loop.simps[of f rows keys n i acc] split: sum.splits)
    qed
  qed
qed

lemma run_chains_sequentially_eq_vmap: "run_chains_sequentially f xs keys = vmap f xs keys"
proof (cases "shape xs")
  case Nil
  then show ?thesis
    by (simp add: run_chains_sequentially_def vmap_def)
next
  case (Cons n s)
  show ?thesis
  proof (cases "n = length keys")
    case False
    with Cons show ?thesis
      by (simp add: run_chains_sequentially_def vmap_def)
  next
    case True
    with Cons have "length (unstack xs) = n"
      by (simp add: unstack_length)
    with True have "sequential_loop f (unstack xs) keys n 0 [] =
        (case collect (map2 f (drop 0 (unstack xs)) (drop 0 keys)) of
           Inl e \<Rightarrow> Inl e
         | Inr rs \<Rightarrow> Inr ([] @ rs))"
      by (intro sequential_loop_collect) auto
    then have "sequential_loop f (unstack xs) keys n 0 [] = collect (map2 f (unstack xs) keys)"
      by (simp split: sum.splits)
    with Cons True show ?thesis
      by (simp add: run_chains_sequentially_def vmap_def)
  qed
qed

text \<open>
  C8. Running the chains one after the other, chain \<open>i\<close> on row \<open>i\<close> of the starting
  batch with entry \<open>i\<close> of the split of the top-level key, gives the result of the
  vectorized execution, errors included. And when a call returns (for a well-formed
  \<open>starter_xs\<close>, if one was supplied), row \<open>i\<close> of the final samples and row \<open>i\<close>
  of the samples are what the chain started at row \<open>i\<close> of the starting batch with
  subkey \<open>i\<close> returns.
\<close>

theorem sequential_chains_agree_with_vmap:
  "langevin_dynamics_sequential J n_chains n_samples key epsilon score_func params init_scale
       starter_xs sample_shape
     = langevin_dynamics J n_chains n_samples key epsilon score_func params init_scale
         starter_xs sample_shape
   \<and> (langevin_dynamics J n_chains n_samples key epsilon score_func params init_scale
         starter_xs sample_shape = Inr (starting_batch, final_samples, samples)
        \<and> (case starter_xs of None \<Rightarrow> True | Some b \<Rightarrow> wf_ndarray b)
        \<and> i < n_chains
      \<longrightarrow> langevin_dynamics_one_chain J n_samples epsilon (score_func params)
              (resolve_sample_shape starter_xs sample_shape)
              (unstack starting_batch ! i) (subkey J key n_chains i)
            = Inr (unstack final_samples ! i, unstack samples ! i))"
proof (intro conjI impI)
  show "langevin_dynamics_sequential J n_chains n_samples key epsilon score_func params init_scale
       starter_xs sample_shape
     = langevin_dynamics J n_chains n_samples key epsilon score_func params init_scale
         starter_xs sample_shape"
    unfolding langevin_dynamics_sequential_def langevin_dynamics_def
      run_chains_sequentially_eq_vmap ..
next
  let ?f = "langevin_dynamics_one_chain J n_samples epsilon (score_func params)
              (resolve_sample_shape starter_xs sample_shape)"
  assume a: "langevin_dynamics J n_chains n_samples key epsilon score_func params init_scale
         starter_xs sample_shape = Inr (starting_batch, final_samples, samples)
        \<and> (case starter_xs of None \<Rightarrow> True | Some b \<Rightarrow> wf_ndarray b)
        \<and> i < n_chains"
  then have run: "langevin_dynamics J n_chains n_samples key epsilon score_func params init_scale
         starter_xs sample_shape = Inr (starting_batch, final_samples, samples)"
    and wfin: "case starter_xs of None \<Rightarrow> True | Some b \<Rightarrow> wf_ndarray b"
    and i: "i < n_chains"
    by simp_all
  from langevin_dynamics_chains[OF run] obtain d rs where
    r: "shape starting_batch = n_chains # d" "length rs = n_chains"
       "resolve_starter_xs J n_chains key init_scale starter_xs
          (resolve_sample_shape starter_xs sample_shape) = Inr starting_batch"
       "\<forall>i < n_chains. ?f (unstack starting_batch ! i) (subkey J key n_chains i) = Inr (rs ! i)"
       "stack (map fst rs) = Inr final_samples" "stack (map snd rs) = Inr samples"
    by blast
  have wfb: "wf_ndarray starting_batch"
    using r(3) wfin by (rule resolve_starter_xs_wf)
  have wfr: "wf_ndarray (fst (rs ! j)) \<and> wf_ndarray (snd (rs ! j))" if "j < n_chains" for j
  proof -
    from r(4) that have
      "?f (unstack starting_batch ! j) (subkey J key n_chains j) = Inr (fst (rs ! j), snd (rs ! j))"
      by simp
    moreover have "wf_ndarray (unstack starting_batch ! j)"
      using wfb r(1) that by (rule unstack_wf)
    ultimately show ?thesis
      by (rule one_chain_wf)
  qed
  have wf_fst: "wf_ndarray x" if "x \<in> set (map fst rs)" for x
  proof -
    from that obtain j where "j < length rs" "x = fst (rs ! j)"
      by (auto simp: in_set_conv_nth)
    with wfr[of j] r(2) show ?thesis by simp
  qed
  have wf_snd: "wf_ndarray x" if "x \<in> set (map snd rs)" for x
  proof -
    from that obtain j where "j < length rs" "x = snd (rs ! j)"
      by (auto simp: in_set_conv_nth)
    with wfr[of j] r(2) show ?thesis by simp
  qed
  have "unstack final_samples = map fst rs"
    using r(5) wf_fst by (rule unstack_stack)
  moreover have "unstack samples = map snd rs"
    using r(6) wf_snd by (rule unstack_stack)
  ultimately have "rs ! i = (unstack final_samples ! i, unstack samples ! i)"
    using i r(2) by simp
  with r(4) i show "?f (unstack starting_batch ! i) (subkey J key n_chains i)
            = Inr (unstack final_samples ! i, unstack samples ! i)"
    by simp
qed

theorem sequential_chains_agree_with_vmap_witness:
  "langevin_dynamics_sequential example_runtime 2 2 1 2 zero_score () 5
       (Some \<lparr>shape = [2, 1], data = [0, 1]\<rparr>) None
     = langevin_dynamics example_runtime 2 2 1 2 zero_score () 5
         (Some \<lparr>shape = [2, 1], data = [0, 1]\<rparr>) None
   \<and> langevin_dynamics_one_chain example_runtime 2 2 (zero_score ())
         (resolve_sample_shape (Some \<lparr>shape = [2, 1], data = [0, 1 :: real]\<rparr>) None)
         (unstack \<lparr>shape = [2, 1], data = [0, 1]\<rparr> ! 1) (subkey example_runtime 1 2 1)
       = Inr (unstack \<lparr>shape = [2, 1], data = [402, 443]\<rparr> ! 1,
              unstack \<lparr>shape = [2, 2, 1], data = [0, 200, 1, 221]\<rparr> ! 1)"
proof -
  have h: "langevin_dynamics example_runtime 2 2 1 2 zero_score () 5
             (Some \<lparr>shape = [2, 1], data = [0, 1]\<rparr>) None
           = Inr (\<lparr>shape = [2, 1], data = [0, 1]\<rparr>,
                  \<lparr>shape = [2, 1], data = [402, 443]\<rparr>,
                  \<lparr>shape = [2, 2, 1], data = [0, 200, 1, 221]\<rparr>)
         \<and> (case Some \<lparr>shape = [2, 1], data = [0, 1 :: real]\<rparr> of
               None \<Rightarrow> True | Some b \<Rightarrow> wf_ndarray b)
         \<and> (1 :: nat) < 2"
    using example_run_with_starter[of 5] by (simp add: wf_ndarray_def)
  have seq: "langevin_dynamics_sequential example_runtime 2 2 1 2 zero_score () 5
       (Some \<lparr>shape = [2, 1], data = [0, 1]\<rparr>) None
     = langevin_dynamics example_runtime 2 2 1 2 zero_score () 5
         (Some \<lparr>shape = [2, 1], data = [0, 1]\<rparr>) None"
    by (rule sequential_chains_agree_with_vmap[THEN conjunct1])
  have "langevin_dynamics_one_chain example_runtime 2 2 (zero_score ())
         (resolve_sample_shape (Some \<lparr>shape = [2, 1], data = [0, 1 :: real]\<rparr>) None)
         (unstack \<lparr>shape = [2, 1], data = [0, 1]\<rparr> ! 1) (subkey example_runtime 1 2 1)
       = Inr (unstack \<lparr>shape = [2, 1], data = [402, 443]\<rparr> ! 1,
              unstack \<lparr>shape = [2, 2, 1], data = [0, 200, 1, 221]\<rparr> ! 1)"
    by (rule sequential_chains_agree_with_vmap
        [where score_func = zero_score and params = "()", THEN conjunct2, THEN mp, OF h])
  with seq show ?thesis
    by (rule conjI)
qed

section \<open>Two invocations on the same inputs\<close>

subsection \<open>At most one outcome\<close>

lemma inner_nd_deterministic:
  assumes "\<And>r r'. S x r \<Longrightarrow> S x r' \<Longrightarrow> r = r'"
    and "inner_nd J epsilon S sample_shape x key out"
    and "inner_nd J epsilon S sample_shape x key out'"
  shows "out = out'"
  using assms by (auto elim!: inner_nd.cases)

lemma scan_nd_deterministic:
  assumes det: "\<And>c k out out'. F c k out \<Longrightarrow> F c k out' \<Longrightarrow> out = out'"
  shows "scan_nd F c ks r \<Longrightarrow> scan_nd F c ks r' \<Longrightarrow> r = r'"
proof (induction arbitrary: r' rule: scan_nd.induct)
  case (scan_nd_done c)
  then show ?case
    by (cases rule: scan_nd.cases) simp
next
  case (scan_nd_raise c k e ks)
  from scan_nd_raise.prems show ?case
  proof (cases rule: scan_nd.cases)
    case (scan_nd_raise e')
    with det[OF scan_nd_raise.hyps, of "Inl e'"] show ?thesis by simp
  next
    case (scan_nd_carry c' y)
    with det[OF scan_nd_raise.hyps, of "Inr (c', y)"] show ?thesis by simp
  next
    case (scan_nd_step c' y q)
    with det[OF scan_nd_raise.hyps, of "Inr (c', y)"] show ?thesis by simp
  qed
next
  case (scan_nd_carry c k c' y ks)
  from scan_nd_carry.prems show ?case
  proof (cases rule: scan_nd.cases)
    case (scan_nd_raise e')
    then show ?thesis
      using det[OF scan_nd_carry.hyps(1), of "Inl e'"] by simp
  next
    case (scan_nd_carry c'' y')
    then show ?thesis by simp
  next
    case (scan_nd_step c'' y' q)
    then show ?thesis
      using det[OF scan_nd_carry.hyps(1), of "Inr (c'', y')"] scan_nd_carry.hyps(2) by simp
  qed
next
  case (scan_nd_step c k c' y ks r)
  from scan_nd_step.prems show ?case
  proof (cases rule: scan_nd.cases)
    case (scan_nd_raise e')
    then show ?thesis
      using det[OF scan_nd_step.hyps(1), of "Inl e'"] by simp
  next
    case (scan_nd_carry c'' y')
    then show ?thesis
      using det[OF scan_nd_step.hyps(1), of "Inr (c'', y')"] scan_nd_step.hyps(2) by simp
  next
    case inner: (scan_nd_step c'' y' q)
    from det[OF scan_nd_step.hyps(1) inner(2)] have same: "c'' = c'" "y' = y"
      by simp_all
    with inner(4) have "r = q"
      by (intro scan_nd_step.IH) simp
    with inner(1) same show ?thesis
      by (simp split: sum.splits)
  qed
qed

lemma list_all2_deterministic:
  assumes det: "\<And>x y z. R x y \<Longrightarrow> R x z \<Longrightarrow> y = z"
    and ys: "list_all2 R xs ys" and zs: "list_all2 R xs zs"
  shows "ys = zs"
proof (rule nth_equalityI)
  show "length ys = length zs"
    using ys zs by (simp add: list_all2_conv_all_nth)
next
  fix i assume "i < length ys"
  then have "R (xs ! i) (ys ! i)" "R (xs ! i) (zs ! i)"
    using ys zs by (simp_all add: list_all2_conv_all_nth)
  then show "ys ! i = zs ! i"
    by (rule det)
qed

lemma one_chain_nd_deterministic:
  assumes det: "\<And>x r r'. S x r \<Longrightarrow> S x r' \<Longrightarrow> r = r'"
    and "one_chain_nd J n_samples epsilon S sample_shape x key out"
    and "one_chain_nd J n_samples epsilon S sample_shape x key out'"
  shows "out = out'"
proof -
  have d: "out1 = out2"
    if "inner_nd J epsilon S sample_shape c k out1" "inner_nd J epsilon S sample_shape c k out2"
    for c k out1 out2
    by (rule inner_nd_deterministic[where S = S and x = c, OF det that])
  from assms(2) obtain r where
    r: "scan_nd (inner_nd J epsilon S sample_shape) x (random_split J key n_samples) r"
       "out = (case r of Inl e \<Rightarrow> Inl e
               | Inr (final_xs, xs) \<Rightarrow>
                   (case vstack xs of Inl e \<Rightarrow> Inl e | Inr v \<Rightarrow> Inr (final_xs, v)))"
    by (auto elim: one_chain_nd.cases)
  from assms(3) obtain r' where
    r': "scan_nd (inner_nd J epsilon S sample_shape) x (random_split J key n_samples) r'"
        "out' = (case r' of Inl e \<Rightarrow> Inl e
               | Inr (final_xs, xs) \<Rightarrow>
                   (case vstack xs of Inl e \<Rightarrow> Inl e | Inr v \<Rightarrow> Inr (final_xs, v)))"
    by (auto elim: one_chain_nd.cases)
  from scan_nd_deterministic[of "inner_nd J epsilon S sample_shape", OF d r(1) r'(1)]
  have "r = r'" .
  with r(2) r'(2) show ?thesis
    by simp
qed

lemma vmap_nd_deterministic:
  assumes det: "\<And>x k out out'. F x k out \<Longrightarrow> F x k out' \<Longrightarrow> out = out'"
    and "vmap_nd F xs keys out" and "vmap_nd F xs keys out'"
  shows "out = out'"
  using assms(2)
proof (cases rule: vmap_nd.cases)
  case vmap_nd_no_axis
  with assms(3) show ?thesis
    by (auto elim: vmap_nd.cases)
next
  case (vmap_nd_sizes n s)
  with assms(3) show ?thesis
    by (auto elim: vmap_nd.cases)
next
  case (vmap_nd_run n s rs)
  from assms(3) vmap_nd_run(2,3) obtain rs' where
    rs': "list_all2 (\<lambda>(x, k) r. F x k r) (zip (unstack xs) keys) rs'"
         "out' = (case collect rs' of
            Inl e \<Rightarrow> Inl e
          | Inr rs' \<Rightarrow>
              (case stack (map fst rs') of
                 Inl e \<Rightarrow> Inl e
               | Inr finals \<Rightarrow>
                   (case stack (map snd rs') of
                      Inl e \<Rightarrow> Inl e
                    | Inr samples \<Rightarrow> Inr (finals, samples))))"
    by (auto elim: vmap_nd.cases)
  have "rs = rs'"
    using vmap_nd_run(4) rs'(1)
    by (rule list_all2_deterministic[rotated]) (auto dest: det)
  with vmap_nd_run(1) rs'(2) show ?thesis
    by simp
qed

subsection \<open>For a score function that is a function, the outcome is \<open>langevin_dynamics\<close>\<close>

lemma inner_nd_function:
  "inner_nd J epsilon (\<lambda>x r. r = score x) sample_shape x key out
     \<longleftrightarrow> out = inner J epsilon score sample_shape x key"
proof
  assume "inner_nd J epsilon (\<lambda>x r. r = score x) sample_shape x key out"
  then obtain r where "r = score x" "out = inner J epsilon (\<lambda>u. r) sample_shape x key"
    by (cases rule: inner_nd.cases)
  then show "out = inner J epsilon score sample_shape x key"
    by (simp add: inner_def)
next
  assume out: "out = inner J epsilon score sample_shape x key"
  have "inner_nd J epsilon (\<lambda>x r. r = score x) sample_shape x key
          (inner J epsilon (\<lambda>u. score x) sample_shape x key)"
    by (rule inner_nd_call) (rule refl)
  with out show "inner_nd J epsilon (\<lambda>x r. r = score x) sample_shape x key out"
    by (simp add: inner_def)
qed

lemma scan_nd_scan:
  assumes "\<And>c k out. F c k out \<longleftrightarrow> out = f c k"
  shows "scan_nd F c ks (scan f c ks)"
proof (induction ks arbitrary: c)
  case Nil
  show ?case by (simp add: scan_nd_done)
next
  case (Cons k ks)
  show ?case
  proof (cases "f c k")
    case (Inl e)
    then have "F c k (Inl e)" by (simp add: assms)
    then have "scan_nd F c (k # ks) (Inl e)" by (rule scan_nd_raise)
    with Inl show ?thesis by simp
  next
    case (Inr p)
    obtain c' y where p: "p = (c', y)" by (cases p)
    with Inr have step: "F c k (Inr (c', y))" by (simp add: assms)
    show ?thesis
    proof (cases "shape c' = shape c")
      case False
      with step have "scan_nd F c (k # ks) (Inl JaxShapeError)" by (rule scan_nd_carry)
      with Inr p False show ?thesis by simp
    next
      case True
      from step True Cons.IH[of c'] have
        "scan_nd F c (k # ks)
           (case scan f c' ks of Inl e \<Rightarrow> Inl e | Inr (final, ys) \<Rightarrow> Inr (final, y # ys))"
        by (rule scan_nd_step)
      with Inr p True show ?thesis by simp
    qed
  qed
qed

lemma scan_nd_function:
  assumes F: "\<And>c k out. F c k out \<longleftrightarrow> out = f c k"
  shows "scan_nd F c ks out \<longleftrightarrow> out = scan f c ks"
proof
  have ex: "scan_nd F c ks (scan f c ks)"
    using F by (rule scan_nd_scan)
  have det: "o1 = o2" if "F c k o1" "F c k o2" for c k o1 o2
    using that by (simp add: F)
  {
    assume rel: "scan_nd F c ks out"
    show "out = scan f c ks"
      by (rule scan_nd_deterministic[where F = F, OF det rel ex])
  next
    assume "out = scan f c ks"
    with ex show "scan_nd F c ks out"
      by simp
  }
qed

lemma one_chain_nd_function:
  "one_chain_nd J n_samples epsilon (\<lambda>x r. r = score x) sample_shape x key out
     \<longleftrightarrow> out = langevin_dynamics_one_chain J n_samples epsilon score sample_shape x key"
proof -
  have sc: "scan_nd (inner_nd J epsilon (\<lambda>x r. r = score x) sample_shape) c ks r
              \<longleftrightarrow> r = scan (inner J epsilon score sample_shape) c ks" for c ks r
    by (rule scan_nd_function) (rule inner_nd_function)
  show ?thesis
  proof
    assume "one_chain_nd J n_samples epsilon (\<lambda>x r. r = score x) sample_shape x key out"
    then show "out = langevin_dynamics_one_chain J n_samples epsilon score sample_shape x key"
      by (cases rule: one_chain_nd.cases) (simp add: sc langevin_dynamics_one_chain_def)
  next
    assume "out = langevin_dynamics_one_chain J n_samples epsilon score sample_shape x key"
    moreover have "one_chain_nd J n_samples epsilon (\<lambda>x r. r = score x) sample_shape x key
        (case scan (inner J epsilon score sample_shape) x (random_split J key n_samples) of
           Inl e \<Rightarrow> Inl e
         | Inr (final_xs, xs) \<Rightarrow>
             (case vstack xs of Inl e \<Rightarrow> Inl e | Inr v \<Rightarrow> Inr (final_xs, v)))"
      by (rule one_chain_nd_run) (simp add: sc)
    ultimately show "one_chain_nd J n_samples epsilon (\<lambda>x r. r = score x) sample_shape x key out"
      by (simp add: langevin_dynamics_one_chain_def)
  qed
qed

lemma list_all2_function:
  "list_all2 (\<lambda>(x, k) r. r = f x k) ps rs \<longleftrightarrow> rs = map (\<lambda>(x, k). f x k) ps"
  by (induction ps arbitrary: rs) (auto simp: list_all2_Cons1)

lemma vmap_nd_function:
  assumes F: "\<And>x k out. F x k out \<longleftrightarrow> out = f x k"
  shows "vmap_nd F xs keys out \<longleftrightarrow> out = vmap f xs keys"
proof -
  have eq: "(\<lambda>(x, k) r. F x k r) = (\<lambda>(x, k) r. r = f x k)"
    by (auto simp: fun_eq_iff F)
  have la: "list_all2 (\<lambda>(x, k) r. F x k r) (zip (unstack xs) keys) rs
              \<longleftrightarrow> rs = map2 f (unstack xs) keys" for rs
    unfolding eq by (rule list_all2_function)
  show ?thesis
  proof
    assume "vmap_nd F xs keys out"
    then show "out = vmap f xs keys"
    proof (cases rule: vmap_nd.cases)
      case vmap_nd_no_axis
      then show ?thesis by (simp add: vmap_def)
    next
      case (vmap_nd_sizes n s)
      then show ?thesis by (simp add: vmap_def)
    next
      case (vmap_nd_run n s rs)
      from vmap_nd_run(4) have "rs = map2 f (unstack xs) keys"
        by (simp only: la)
      with vmap_nd_run(1,2,3) show ?thesis
        by (simp add: vmap_def)
    qed
  next
    assume out: "out = vmap f xs keys"
    show "vmap_nd F xs keys out"
    proof (cases "shape xs")
      case Nil
      then have "vmap_nd F xs keys (Inl JaxShapeError)" by (rule vmap_nd_no_axis)
      with Nil out show ?thesis by (simp add: vmap_def)
    next
      case (Cons n s)
      show ?thesis
      proof (cases "n = length keys")
        case False
        with Cons have "vmap_nd F xs keys (Inl JaxShapeError)" by (rule vmap_nd_sizes)
        with Cons False out show ?thesis by (simp add: vmap_def)
      next
        case True
        have "list_all2 (\<lambda>(x, k) r. F x k r) (zip (unstack xs) keys) (map2 f (unstack xs) keys)"
          by (simp add: la)
        with Cons True have "vmap_nd F xs keys
          (case collect (map2 f (unstack xs) keys) of
             Inl e \<Rightarrow> Inl e
           | Inr rs' \<Rightarrow>
               (case stack (map fst rs') of
                  Inl e \<Rightarrow> Inl e
                | Inr finals \<Rightarrow>
                    (case stack (map snd rs') of
                       Inl e \<Rightarrow> Inl e
                     | Inr samples \<Rightarrow> Inr (finals, samples))))"
          by (rule vmap_nd_run)
        with Cons True out show ?thesis by (simp add: vmap_def)
      qed
    qed
  qed
qed

lemma langevin_dynamics_nd_function:
  "langevin_dynamics_nd J n_chains n_samples key epsilon (\<lambda>p x r. r = score_func p x) params
       init_scale starter_xs sample_shape out
     \<longleftrightarrow> out = langevin_dynamics J n_chains n_samples key epsilon score_func params init_scale
           starter_xs sample_shape"
proof -
  let ?ss = "resolve_sample_shape starter_xs sample_shape"
  let ?S = "\<lambda>p x r. r = score_func p x"
  have vm: "vmap_nd (one_chain_nd J n_samples epsilon (?S params) ?ss) b ks r
              \<longleftrightarrow> r = vmap (langevin_dynamics_one_chain J n_samples epsilon (score_func params) ?ss)
                       b ks" for b ks r
    by (rule vmap_nd_function) (rule one_chain_nd_function)
  have unf: "langevin_dynamics J n_chains n_samples key epsilon score_func params init_scale
               starter_xs sample_shape =
             (case resolve_starter_xs J n_chains key init_scale starter_xs ?ss of
                Inl e \<Rightarrow> Inl e
              | Inr b \<Rightarrow>
                  (case vmap (langevin_dynamics_one_chain J n_samples epsilon (score_func params)
                                ?ss) b (random_split J key n_chains) of
                     Inl e \<Rightarrow> Inl e
                   | Inr (final_samples, samples) \<Rightarrow> Inr (b, final_samples, samples)))"
    if "\<not> (starter_xs = None \<and> sample_shape = None)"
    unfolding langevin_dynamics_def Let_def using that by (rule if_not_P)
  show ?thesis
  proof
    assume "langevin_dynamics_nd J n_chains n_samples key epsilon ?S params
       init_scale starter_xs sample_shape out"
    then show "out = langevin_dynamics J n_chains n_samples key epsilon score_func params init_scale
           starter_xs sample_shape"
    proof (cases rule: langevin_dynamics_nd.cases)
      case langevin_dynamics_nd_both_None
      then show ?thesis by (simp add: langevin_dynamics_def)
    next
      case (langevin_dynamics_nd_init_raises e)
      then show ?thesis by (simp add: unf)
    next
      case (langevin_dynamics_nd_run b r)
      from langevin_dynamics_nd_run(4) have
        "r = vmap (langevin_dynamics_one_chain J n_samples epsilon (score_func params) ?ss)
               b (random_split J key n_chains)"
        by (simp only: vm)
      with langevin_dynamics_nd_run(1,2,3) show ?thesis
        by (simp add: unf)
    qed
  next
    assume out: "out = langevin_dynamics J n_chains n_samples key epsilon score_func params
           init_scale starter_xs sample_shape"
    show "langevin_dynamics_nd J n_chains n_samples key epsilon ?S params
       init_scale starter_xs sample_shape out"
    proof (cases "starter_xs = None \<and> sample_shape = None")
      case True
      with out show ?thesis
        by (simp add: langevin_dynamics_def langevin_dynamics_nd_both_None)
    next
      case False
      show ?thesis
      proof (cases "resolve_starter_xs J n_chains key init_scale starter_xs ?ss")
        case (Inl e)
        with False have "langevin_dynamics_nd J n_chains n_samples key epsilon ?S params
           init_scale starter_xs sample_shape (Inl e)"
          by (rule langevin_dynamics_nd_init_raises)
        with Inl out show ?thesis
          by (simp add: unf[OF False])
      next
        case (Inr b)
        have "vmap_nd (one_chain_nd J n_samples epsilon (?S params) ?ss) b
                (random_split J key n_chains)
                (vmap (langevin_dynamics_one_chain J n_samples epsilon (score_func params) ?ss)
                   b (random_split J key n_chains))"
          by (simp only: vm)
        with False Inr have "langevin_dynamics_nd J n_chains n_samples key epsilon ?S params
           init_scale starter_xs sample_shape
           (case vmap (langevin_dynamics_one_chain J n_samples epsilon (score_func params) ?ss)
                   b (random_split J key n_chains) of
              Inl e \<Rightarrow> Inl e
            | Inr (final_samples, samples) \<Rightarrow> Inr (b, final_samples, samples))"
          by (rule langevin_dynamics_nd_run)
        with Inr out show ?thesis
          by (simp add: unf[OF False])
      qed
    qed
  qed
qed

text \<open>
  C4. If the score function is deterministic (at the given parameters it has at most
  one outcome for each argument), then two invocations of the sampler on the same
  \<open>key\<close>, \<open>n_chains\<close>, \<open>n_samples\<close>, \<open>epsilon\<close>, score function, parameters,
  \<open>init_scale\<close>, \<open>starter_xs\<close> and \<open>sample_shape\<close> have the same outcome: the same
  error, or the same triple of starting batch, final samples and samples.
\<close>

theorem same_inputs_same_outputs:
  assumes det: "\<forall>x r r'. S params x r \<longrightarrow> S params x r' \<longrightarrow> r = r'"
    and run1: "langevin_dynamics_nd J n_chains n_samples key epsilon S params init_scale
                 starter_xs sample_shape out1"
    and run2: "langevin_dynamics_nd J n_chains n_samples key epsilon S params init_scale
                 starter_xs sample_shape out2"
  shows "out1 = out2"
proof -
  let ?ss = "resolve_sample_shape starter_xs sample_shape"
  have chain: "out = out'"
    if "one_chain_nd J n_samples epsilon (S params) ?ss x k out"
       "one_chain_nd J n_samples epsilon (S params) ?ss x k out'" for x k out out'
    using that by (intro one_chain_nd_deterministic[OF _ that]) (use det in blast)
  have vm: "r = r'"
    if "vmap_nd (one_chain_nd J n_samples epsilon (S params) ?ss) b ks r"
       "vmap_nd (one_chain_nd J n_samples epsilon (S params) ?ss) b ks r'" for b ks r r'
    by (rule vmap_nd_deterministic
        [where F = "one_chain_nd J n_samples epsilon (S params) ?ss", OF chain that])
  from run1 show ?thesis
  proof (cases rule: langevin_dynamics_nd.cases)
    case langevin_dynamics_nd_both_None
    with run2 show ?thesis
      by (auto elim: langevin_dynamics_nd.cases)
  next
    case (langevin_dynamics_nd_init_raises e)
    with run2 show ?thesis
      by (auto elim: langevin_dynamics_nd.cases)
  next
    case (langevin_dynamics_nd_run b r)
    note first = langevin_dynamics_nd_run
    from run2 show ?thesis
    proof (cases rule: langevin_dynamics_nd.cases)
      case langevin_dynamics_nd_both_None
      with first(2) show ?thesis by simp
    next
      case (langevin_dynamics_nd_init_raises e)
      with first(3) show ?thesis by simp
    next
      case (langevin_dynamics_nd_run b' r')
      with first(3) have "b' = b" by simp
      with langevin_dynamics_nd_run(4) have "r = r'"
        by (intro vm[OF first(4)]) simp
      with first(1) langevin_dynamics_nd_run(1) \<open>b' = b\<close> show ?thesis
        by (simp split: sum.splits)
    qed
  qed
qed

theorem same_inputs_same_outputs_witness:
  "{out. langevin_dynamics_nd example_runtime 2 2 1 2 (\<lambda>p x r. r = zero_score p x) () 5
           (Some \<lparr>shape = [2, 1], data = [0, 1]\<rparr>) None out}
   = {Inr (\<lparr>shape = [2, 1], data = [0, 1]\<rparr>,
           \<lparr>shape = [2, 1], data = [402, 443]\<rparr>,
           \<lparr>shape = [2, 2, 1], data = [0, 200, 1, 221]\<rparr>)}"
proof -
  let ?run = "langevin_dynamics_nd example_runtime 2 2 1 2 (\<lambda>p x r. r = zero_score p x) () 5
           (Some \<lparr>shape = [2, 1], data = [0, 1]\<rparr>) None"
  let ?out = "Inr (\<lparr>shape = [2, 1], data = [0, 1]\<rparr>,
           \<lparr>shape = [2, 1], data = [402, 443]\<rparr>,
           \<lparr>shape = [2, 2, 1], data = [0, 200, 1, 221]\<rparr>)
         :: error + real ndarray \<times> real ndarray \<times> real ndarray"
  have det: "\<forall>x r r'. r = zero_score () x \<longrightarrow> r' = zero_score () x \<longrightarrow> r = r'"
    by simp
  have mem: "?run ?out"
    by (rule langevin_dynamics_nd_function[THEN iffD2])
      (rule example_run_with_starter[symmetric])
  have uniq: "out = ?out" if "?run out" for out
    by (rule same_inputs_same_outputs
        [where S = "\<lambda>p x r. r = zero_score p x" and params = "()", OF det that mem])
  show ?thesis
  proof (intro set_eqI iffI)
    fix out assume "out \<in> {out. ?run out}"
    then have "?run out"
      by (simp only: mem_Collect_eq)
    then have "out = ?out"
      by (rule uniq)
    then show "out \<in> {?out}"
      by (simp only: singleton_iff)
  next
    fix out assume "out \<in> {?out}"
    then have "out = ?out"
      by (simp only: singleton_iff)
    with mem show "out \<in> {out. ?run out}"
      by (simp only: mem_Collect_eq)
  qed
qed

end
